theory Spec2Isabelle
  imports Complex_Main "HOL-Library.AList"
begin

section \<open>The LISFLOOD-FP adapter of GLOFRIM (\<open>glofrim/lfp_bmi.py\<close>)\<close>

text \<open>
  A shallow embedding of the class \<open>LFP\<close> and of its parameter-file parser
  \<open>ParConfigParser\<close>. Every definition carries the name of the method it embeds.
  The wrapped engine, numpy, scipy and the Python standard library are outside the
  repository; what the adapter uses of them is written out next to the method that
  uses it.
\<close>

subsection \<open>Two-dimensional arrays and the variable mask\<close>

text \<open>
  A two-dimensional numpy array is the list of its rows. \<open>shape\<close> is the pair
  (rows, columns); \<open>is_array h w a\<close> says that \<open>a\<close> is a non-empty rectangular
  array of \<open>h\<close> rows and \<open>w\<close> columns.

  \<open>np.vstack\<close> and \<open>np.hstack\<close> of a boolean mask with \<open>np.zeros\<close> give a float
  array holding 1.0 for True and 0.0 for False (\<open>as_float\<close>); the sums of the
  convolution are 0, 1 or 2, exact in float64, so the cells are integers here.
  \<open>np.array(..., dtype='bool')\<close> is the test for a nonzero cell (\<open>as_bool\<close>).

  \<open>scipy.signal.convolve2d(in1, in2)\<close> is called with its defaults (mode 'full', zero
  boundary): the output has shape \<open>(h1 + h2 - 1, w1 + w2 - 1)\<close> and
  \<open>out[i, j]\<close> is the sum over the kernel cells \<open>(p, q)\<close> of
  \<open>in2[p, q] * in1[i - p, j - q]\<close>, taken where the index into \<open>in1\<close> exists.
\<close>

definition shape :: "'a list list \<Rightarrow> nat \<times> nat" where
  "shape a = (length a, (case a of [] \<Rightarrow> 0 | r # _ \<Rightarrow> length r))"

definition is_array :: "nat \<Rightarrow> nat \<Rightarrow> 'a list list \<Rightarrow> bool" where
  "is_array h w a = (0 < h \<and> 0 < w \<and> length a = h \<and> list_all (\<lambda>r. length r = w) a)"

definition zeros :: "nat \<Rightarrow> nat \<Rightarrow> int list list" where
  "zeros h w = replicate h (replicate w 0)"

definition vstack :: "'a list list \<Rightarrow> 'a list list \<Rightarrow> 'a list list" where
  "vstack a b = a @ b"

definition hstack :: "'a list list \<Rightarrow> 'a list list \<Rightarrow> 'a list list" where
  "hstack a b = map (\<lambda>(r, s). r @ s) (zip a b)"

definition as_float :: "bool list list \<Rightarrow> int list list" where
  "as_float m = map (map (\<lambda>b. if b then 1 else 0)) m"

definition as_bool :: "int list list \<Rightarrow> bool list list" where
  "as_bool a = map (map (\<lambda>x. x \<noteq> 0)) a"

definition convolve2d :: "int list list \<Rightarrow> int list list \<Rightarrow> int list list" where
  "convolve2d in1 in2 =
     (let (h1, w1) = shape in1; (h2, w2) = shape in2
      in map (\<lambda>i. map (\<lambda>j.
             (\<Sum>p\<leftarrow>[0..<h2]. \<Sum>q\<leftarrow>[0..<w2].
                if p \<le> i \<and> i - p < h1 \<and> q \<le> j \<and> j - q < w1
                then in2 ! p ! q * in1 ! (i - p) ! (j - q) else 0))
           [0..<w1 + w2 - 1]) [0..<h1 + h2 - 1])"

text \<open>
  \<open>LFP.get_mask\<close>, lines 168 to 180, as a function of the variable name and of
  \<open>self.grid.mask\<close>. Inside the outer branch the name is one of the four listed, so
  the \<open>elif\<close> of the source is the \<open>else\<close> here.
\<close>

definition get_mask :: "string \<Rightarrow> bool list list \<Rightarrow> bool list list" where
  "get_mask long_var_name grid_mask =
     (if long_var_name \<in> set [''Qx'', ''QxSGold'', ''Qy'', ''QySGold''] then
        (let (mask, conv_filt) =
           (if long_var_name \<in> set [''Qx'', ''QxSGold'']
            then (vstack (as_float grid_mask) (zeros 1 (snd (shape grid_mask))), [[1, 1]])
            else (hstack (as_float grid_mask) (zeros (fst (shape grid_mask)) 1), [[1], [1]]))
         in as_bool (convolve2d mask conv_filt))
      else grid_mask)"



subsection \<open>Variable exchange\<close>

text \<open>
  A cell of a float array is not-a-number or a number. The numbers stay abstract: the
  adapter only copies cells, tests them with \<open>np.isnan\<close> and casts them.
  \<open>error\<close> lists the exceptions of the methods embedded below; \<open>'r outcome\<close> is a
  normal return or a raised exception. A method that mutates objects returns them
  beside its outcome, also when it raises.
\<close>

datatype 'a float = NaN | Num 'a

datatype error =
    IndexError | ValueError | TypeError | AssertionError | EngineError
  | NotConfiguredError | NoSectionError | NoOptionError
  | EndTimeReached | WrongTimeInput

datatype 'r outcome = Ok 'r | Raise error

definition isnan :: "'a float \<Rightarrow> bool" where
  "isnan x = (x = NaN)"

text \<open>
  numpy broadcasting of two-dimensional shapes: two extents are compatible when they
  are equal or one of them is 1. \<open>broadcast_to s a\<close> reads \<open>a\<close> at shape \<open>s\<close>,
  repeating an axis of extent 1.
\<close>

definition broadcast_dim :: "nat \<Rightarrow> nat \<Rightarrow> nat option" where
  "broadcast_dim m n =
     (if m = n then Some m else if m = 1 then Some n else if n = 1 then Some m else None)"

definition broadcast_shapes :: "nat \<times> nat \<Rightarrow> nat \<times> nat \<Rightarrow> (nat \<times> nat) option" where
  "broadcast_shapes s t =
     (case (broadcast_dim (fst s) (fst t), broadcast_dim (snd s) (snd t)) of
        (Some h, Some w) \<Rightarrow> Some (h, w)
      | _ \<Rightarrow> None)"

definition broadcast_to :: "nat \<times> nat \<Rightarrow> 'a list list \<Rightarrow> 'a list list" where
  "broadcast_to s a =
     map (\<lambda>i. map (\<lambda>j. a ! (if fst (shape a) = 1 then 0 else i) ! (if snd (shape a) = 1 then 0 else j))
                [0..<snd s]) [0..<fst s]"

text \<open>Cell-wise combination of two arrays of one shape.\<close>

definition zip_with :: "('a \<Rightarrow> 'b \<Rightarrow> 'c) \<Rightarrow> 'a list list \<Rightarrow> 'b list list \<Rightarrow> 'c list list" where
  "zip_with f a b = map (\<lambda>(r, s). map (\<lambda>(x, y). f x y) (zip r s)) (zip a b)"

text \<open>
  \<open>LFP.get_value\<close>, lines 182 to 186. \<open>vars\<close> is the engine's table of live arrays
  (\<open>self._bmi.get_var\<close>; a name the engine does not know makes it fail). The boolean
  index \<open>var[~mask]\<close> needs a mask of the shape of \<open>var\<close>.
\<close>

definition get_value ::
  "bool list list \<Rightarrow> (string \<rightharpoonup> 'a float list list) \<Rightarrow> string \<Rightarrow> 'a float list list outcome" where
  "get_value grid_mask vars long_var_name =
     (case vars long_var_name of
        None \<Rightarrow> Raise EngineError
      | Some var \<Rightarrow>
          (let mask = get_mask long_var_name grid_mask
           in if shape mask \<noteq> shape var then Raise IndexError
              else Ok (zip_with (\<lambda>m x. if \<not> m then NaN else x) mask var)))"

text \<open>
  \<open>LFP.set_value\<close>, lines 191 to 198. Line 194 assigns into the caller's array
  \<open>src\<close>; line 196 rebinds the local name to a new array, so the second component
  of the result is the caller's array after the call and the third is the engine's
  table. \<open>mask & np.isnan(src)\<close> broadcasts, and the boolean index it gives must have
  the shape of \<open>src\<close>. \<open>astype name\<close> is the cast of one cell to
  \<open>self.get_var_type(name)\<close>, the dtype of the engine's array (\<open>get_var_type\<close>
  belongs to the base class \<open>GBmi\<close>), so that the slice assignment of line 198
  casts no further; it broadcasts \<open>src\<close> to the shape of the engine's array.
\<close>

definition set_value ::
  "(string \<Rightarrow> 'a float \<Rightarrow> 'a float) \<Rightarrow> bool list list \<Rightarrow>
   (string \<rightharpoonup> ('a::zero) float list list) \<Rightarrow> string \<Rightarrow> 'a float list list \<Rightarrow> 'a float \<Rightarrow>
   unit outcome \<times> 'a float list list \<times> (string \<rightharpoonup> 'a float list list)" where
  "set_value astype grid_mask vars long_var_name src fill_value =
     (let mask = get_mask long_var_name grid_mask
      in case broadcast_shapes (shape mask) (shape src) of
           None \<Rightarrow> (Raise ValueError, src, vars)
         | Some s \<Rightarrow>
             if s \<noteq> shape src then (Raise IndexError, src, vars)
             else
               (let src1 = zip_with (\<lambda>m x. if m \<and> isnan x then Num 0 else x)
                             (broadcast_to s mask) src;
                    src2 = map (map (\<lambda>x. astype long_var_name (if isnan x then fill_value else x)))
                             src1
                in case vars long_var_name of
                     None \<Rightarrow> (Raise EngineError, src1, vars)
                   | Some var \<Rightarrow>
                       if broadcast_shapes (shape src2) (shape var) \<noteq> Some (shape var)
                       then (Raise ValueError, src1, vars)
                       else (Ok (), src1, vars(long_var_name \<mapsto> broadcast_to (shape var) src2))))"


subsection \<open>Strings\<close>

text \<open>
  A Python \<open>str\<close> is a list of characters. The whitespace of \<open>str.split()\<close>,
  \<open>str.strip()\<close> and of the regular expression class \<open>\s\<close> is, within ASCII, the
  ten characters below; texts are taken to be ASCII.
\<close>

definition whitespace :: "char list" where
  "whitespace = [CHR 0x09, CHR 0x0A, CHR 0x0B, CHR 0x0C, CHR 0x0D,
                 CHR 0x1C, CHR 0x1D, CHR 0x1E, CHR 0x1F, CHR 0x20]"

definition isspace :: "char \<Rightarrow> bool" where
  "isspace c = (c \<in> set whitespace)"

definition lstrip :: "string \<Rightarrow> string" where
  "lstrip s = dropWhile isspace s"

definition rstrip :: "string \<Rightarrow> string" where
  "rstrip s = rev (dropWhile isspace (rev s))"

definition strip :: "string \<Rightarrow> string" where
  "strip s = rstrip (lstrip s)"

text \<open>\<open>s.split()\<close>: the maximal runs of characters that are not whitespace.\<close>

function split_ws :: "string \<Rightarrow> string list" where
  "split_ws s =
     (case dropWhile isspace s of
        [] \<Rightarrow> []
      | c # cs \<Rightarrow> takeWhile (\<lambda>x. \<not> isspace x) (c # cs) #
                 split_ws (dropWhile (\<lambda>x. \<not> isspace x) (c # cs)))"
  by pat_completeness auto
termination
proof (relation "measure length")
  fix s :: string and c cs
  assume a: "dropWhile isspace s = c # cs"
  have "length (dropWhile (\<lambda>x. \<not> isspace x) (c # cs)) < length (c # cs)"
    using a hd_dropWhile[of isspace s] by (simp add: length_dropWhile_le less_Suc_eq_le)
  also have "\<dots> \<le> length s"
    using length_dropWhile_le[of isspace s] a by simp
  finally show "(dropWhile (\<lambda>x. \<not> isspace x) (c # cs), s) \<in> measure length"
    by simp
qed simp

declare split_ws.simps [simp del]

text \<open>\<open>sep.join(xs)\<close>.\<close>

fun join :: "string \<Rightarrow> string list \<Rightarrow> string" where
  "join sep [] = []"
| "join sep [x] = x"
| "join sep (x # y # ys) = x @ sep @ join sep (y # ys)"

text \<open>\<open>s.split(sep)\<close> for a separator of one character: the pieces between its occurrences.\<close>

fun split_on :: "char \<Rightarrow> string \<Rightarrow> string list" where
  "split_on sep [] = [[]]"
| "split_on sep (c # cs) =
     (if c = sep then [] # split_on sep cs
      else (case split_on sep cs of [] \<Rightarrow> [[c]] | p # ps \<Rightarrow> (c # p) # ps))"

text \<open>\<open>s.replace(a, b)\<close> for a pattern \<open>a\<close> of one character.\<close>

definition replace :: "char \<Rightarrow> string \<Rightarrow> string \<Rightarrow> string" where
  "replace a b s = concat (map (\<lambda>c. if c = a then b else [c]) s)"

definition startswith :: "string \<Rightarrow> string \<Rightarrow> bool" where
  "startswith s prefix = (take (length prefix) s = prefix)"

text \<open>
  Iterating over a text file yields its lines, each with the line feed that ends it;
  the last line may have none.
\<close>

fun readlines_from :: "string \<Rightarrow> string \<Rightarrow> string list" where
  "readlines_from cur [] = (if cur = [] then [] else [rev cur])"
| "readlines_from cur (c # cs) =
     (if c = CHR 0x0A then rev (c # cur) # readlines_from [] cs
      else readlines_from (c # cur) cs)"

definition readlines :: "string \<Rightarrow> string list" where
  "readlines text = readlines_from [] text"

subsection \<open>The parameter file: \<open>ParConfigParser\<close>\<close>

text \<open>
  \<open>ParConfigParser\<close> (lines 295 to 319) derives from \<open>configparser.ConfigParser\<close> of
  the Python standard library, constructed with \<open>comment_prefixes=('!', '/', '#')\<close>,
  \<open>inline_comment_prefixes=('!')\<close>, \<open>allow_no_value=True\<close>, \<open>delimiters=('=')\<close> and
  the identity as \<open>optionxform\<close>; \<open>strict\<close> and \<open>empty_lines_in_values\<close> keep their
  default, true. It overrides \<open>read_file\<close> and \<open>_write_section\<close>; \<open>_read\<close> and
  \<open>write\<close> are inherited and are embedded here from the standard library
  (CPython 3.11) for this configuration.

  A parser holds its default section and its sections, each an ordered dictionary
  from option names to values. While a file is read the value of an option is the list
  of its lines, or \<open>None\<close> for an option without value; a default handed to the
  constructor is a plain string. After reading every value is a string or \<open>None\<close>.
\<close>

datatype pval = Lines "string list" | Str string | NoValue

type_synonym raw_section = "(string \<times> pval) list"

datatype cursor = AtDefaults | AtSection string

datatype parse_error =
    DuplicateSectionError | DuplicateOptionError | MissingSectionHeaderError | ParsingError
  | AttributeError

record read_state =
  rs_defaults :: raw_section
  rs_sections :: "(string \<times> raw_section) list"
  rs_cursect :: "cursor option"
  rs_sectname :: "string option"
  rs_optname :: "string option"
  rs_indent_level :: nat
  rs_elements_added :: "(string \<times> string option) list"
  rs_e :: "string list"

record config =
  cfg_defaults :: "(string \<times> string option) list"
  cfg_sections :: "(string \<times> (string \<times> string option) list) list"

definition comment_prefixes :: "string list" where
  "comment_prefixes = [''!'', ''/'', ''#'']"

definition default_section :: string where
  "default_section = ''DEFAULT''"

text \<open>
  The start of an inline comment: the first \<open>!\<close> that is the first character of the
  line or follows a whitespace character. \<open>prev\<close> is the character before the rest.
\<close>

fun inline_comment_start :: "char option \<Rightarrow> string \<Rightarrow> nat option" where
  "inline_comment_start prev [] = None"
| "inline_comment_start prev (c # cs) =
     (if c = CHR ''!'' \<and> (case prev of None \<Rightarrow> True | Some p \<Rightarrow> isspace p) then Some 0
      else map_option Suc (inline_comment_start (Some c) cs))"

text \<open>
  \<open>SECTCRE.match(value)\<close> for the pattern \<open>\[(?P<header>.+)\]\<close>: the value starts
  with \<open>[\<close> and the header runs, greedily, up to the last \<open>]\<close>; it is not empty.
\<close>

definition sectcre_match :: "string \<Rightarrow> string option" where
  "sectcre_match v =
     (case v of
        [] \<Rightarrow> None
      | c # r \<Rightarrow>
          if c \<noteq> CHR ''['' then None
          else (case dropWhile (\<lambda>x. x \<noteq> CHR '']'') (rev r) of
                  [] \<Rightarrow> None
                | _ # h \<Rightarrow> if h = [] then None else Some (rev h)))"

text \<open>
  \<open>self._optcre.match(value)\<close> for the pattern built from \<open>_OPT_NV_TMPL\<close> with the
  delimiter \<open>=\<close>: \<open>(?P<option>.*?)\s*(?:(?P<vi>=)\s*(?P<value>.*))?$\<close>. The lazy
  option group ends before the whitespace that precedes the first \<open>=\<close>, the value
  group is what follows that \<open>=\<close> and its whitespace, and without any \<open>=\<close> the
  value group is \<open>None\<close>. On a value that holds no line feed, as every stripped line
  does, the pattern always matches. The result is the pair of the two groups.
\<close>

definition optcre_match :: "string \<Rightarrow> string \<times> string option" where
  "optcre_match v =
     (rstrip (takeWhile (\<lambda>c. c \<noteq> CHR ''='') v),
      (case dropWhile (\<lambda>c. c \<noteq> CHR ''='') v of
         [] \<Rightarrow> None
       | _ # val \<Rightarrow> Some (lstrip val)))"

text \<open>The dictionary that \<open>cursect\<close> refers to: reading and assigning an entry.\<close>

definition cursect_get :: "read_state \<Rightarrow> cursor \<Rightarrow> string \<Rightarrow> pval option" where
  "cursect_get st cur k =
     (case cur of
        AtDefaults \<Rightarrow> map_of (rs_defaults st) k
      | AtSection s \<Rightarrow> (case map_of (rs_sections st) s of None \<Rightarrow> None | Some d \<Rightarrow> map_of d k))"

definition cursect_set :: "read_state \<Rightarrow> cursor \<Rightarrow> string \<Rightarrow> pval \<Rightarrow> read_state" where
  "cursect_set st cur k v =
     (case cur of
        AtDefaults \<Rightarrow> st\<lparr>rs_defaults := AList.update k v (rs_defaults st)\<rparr>
      | AtSection s \<Rightarrow>
          st\<lparr>rs_sections := AList.map_entry s (AList.update k v) (rs_sections st)\<rparr>)"

text \<open>
  \<open>cursect[optname].append(value)\<close>: an option without value has no list to append
  to, and Python raises \<open>AttributeError\<close>.
\<close>

definition cursect_append :: "read_state \<Rightarrow> cursor \<Rightarrow> string \<Rightarrow> string \<Rightarrow> parse_error + read_state" where
  "cursect_append st cur k line =
     (case cursect_get st cur k of
        Some (Lines ls) \<Rightarrow> Inr (cursect_set st cur k (Lines (ls @ [line])))
      | _ \<Rightarrow> Inl AttributeError)"

text \<open>
  One turn of the loop of \<open>ConfigParser._read\<close> over the lines. An exception raised
  at once is \<open>Inl\<close>; a line without option name is recorded in \<open>e\<close> and raised
  as \<open>ParsingError\<close> after the last line.
\<close>

definition read_line :: "read_state \<Rightarrow> string \<Rightarrow> parse_error + read_state" where
  "read_line st line =
     (let comment_start =
            (if \<exists>prefix \<in> set comment_prefixes. startswith (strip line) prefix then Some 0
             else inline_comment_start None line);
          val = strip (case comment_start of None \<Rightarrow> line | Some n \<Rightarrow> take n line)
      in if val = [] then
           (case (comment_start, rs_cursect st, rs_optname st) of
              (None, Some cur, Some optname) \<Rightarrow>
                if optname \<noteq> [] \<and> cursect_get st cur optname \<noteq> Some NoValue
                then cursect_append st cur optname []
                else Inr st
            | _ \<Rightarrow> Inr st)
         else
           (let cur_indent_level = length (takeWhile isspace line);
                continuation =
                  (case (rs_cursect st, rs_optname st) of
                     (Some cur, Some optname) \<Rightarrow>
                       if optname \<noteq> [] \<and> cur_indent_level > rs_indent_level st
                       then Some (cur, optname) else None
                   | _ \<Rightarrow> None)
            in case continuation of
                 Some (cur, optname) \<Rightarrow> cursect_append st cur optname val
               | None \<Rightarrow>
                   (let st = st\<lparr>rs_indent_level := cur_indent_level\<rparr>
                    in case sectcre_match val of
                         Some sectname \<Rightarrow>
                           if sectname \<in> fst ` set (rs_sections st) then
                             if (sectname, None) \<in> set (rs_elements_added st)
                             then Inl DuplicateSectionError
                             else Inr (st\<lparr>rs_cursect := Some (AtSection sectname),
                                          rs_sectname := Some sectname,
                                          rs_elements_added := (sectname, None) # rs_elements_added st,
                                          rs_optname := None\<rparr>)
                           else if sectname = default_section then
                             Inr (st\<lparr>rs_cursect := Some AtDefaults,
                                     rs_sectname := Some sectname,
                                     rs_optname := None\<rparr>)
                           else
                             Inr (st\<lparr>rs_sections := rs_sections st @ [(sectname, [])],
                                     rs_cursect := Some (AtSection sectname),
                                     rs_sectname := Some sectname,
                                     rs_elements_added := (sectname, None) # rs_elements_added st,
                                     rs_optname := None\<rparr>)
                       | None \<Rightarrow>
                           (case (rs_cursect st, rs_sectname st) of
                              (Some cur, Some sectname) \<Rightarrow>
                                (let (option, optval) = optcre_match val;
                                     st = (if option = [] then st\<lparr>rs_e := rs_e st @ [line]\<rparr>
                                           else st);
                                     optname = rstrip option
                                 in if (sectname, Some optname) \<in> set (rs_elements_added st)
                                    then Inl DuplicateOptionError
                                    else
                                      Inr (cursect_set
                                             (st\<lparr>rs_elements_added :=
                                                    (sectname, Some optname) # rs_elements_added st,
                                                  rs_optname := Some optname\<rparr>)
                                             cur optname
                                             (case optval of
                                                Some v \<Rightarrow> Lines [strip v]
                                              | None \<Rightarrow> NoValue)))
                            | _ \<Rightarrow> Inl MissingSectionHeaderError))))"

fun read_lines :: "read_state \<Rightarrow> string list \<Rightarrow> parse_error + read_state" where
  "read_lines st [] = Inr st"
| "read_lines st (line # lines) =
     (case read_line st line of Inl err \<Rightarrow> Inl err | Inr st' \<Rightarrow> read_lines st' lines)"

text \<open>
  \<open>_join_multiline_values\<close>: the lines of a value are joined with line feeds and
  stripped on the right; the interpolation's \<open>before_read\<close> returns the value as it
  is.
\<close>

definition join_value :: "pval \<Rightarrow> string option" where
  "join_value v =
     (case v of
        Lines ls \<Rightarrow> Some (rstrip (join [CHR 0x0A] ls))
      | Str s \<Rightarrow> Some s
      | NoValue \<Rightarrow> None)"

definition join_multiline_values :: "read_state \<Rightarrow> config" where
  "join_multiline_values st =
     \<lparr>cfg_defaults = map (\<lambda>(k, v). (k, join_value v)) (rs_defaults st),
      cfg_sections = map (\<lambda>(s, d). (s, map (\<lambda>(k, v). (k, join_value v)) d)) (rs_sections st)\<rparr>"

text \<open>
  \<open>ConfigParser._read\<close> on a new parser whose constructor received \<open>defaults\<close>.
\<close>

definition read_ini :: "(string \<times> string) list \<Rightarrow> string list \<Rightarrow> parse_error + config" where
  "read_ini defaults lines =
     (case read_lines
             \<lparr>rs_defaults = map (\<lambda>(k, v). (k, Str v)) defaults, rs_sections = [],
              rs_cursect = None, rs_sectname = None, rs_optname = None, rs_indent_level = 0,
              rs_elements_added = [], rs_e = []\<rparr> lines of
        Inl err \<Rightarrow> Inl err
      | Inr st \<Rightarrow> if rs_e st \<noteq> [] then Inl ParsingError else Inr (join_multiline_values st))"

text \<open>
  \<open>par2ini\<close>, lines 305 to 310, and \<open>ParConfigParser.read_file\<close>, line 311: a header
  line for the section \<open>general\<close>, then of every line of the file its first two
  tokens, joined by \<open>=\<close>.
\<close>

definition par2ini :: "string list \<Rightarrow> string \<Rightarrow> string list" where
  "par2ini f header_name =
     (''['' @ header_name @ '']'' @ [CHR 0x0A]) # map (\<lambda>line. join ''='' (take 2 (split_ws line))) f"

definition read_file :: "(string \<times> string) list \<Rightarrow> string list \<Rightarrow> parse_error + config" where
  "read_file defaults f = read_ini defaults (par2ini f ''general'')"

text \<open>
  \<open>ParConfigParser._write_section\<close>, lines 313 to 319: \<open>str(value)\<close> of a string is the
  string and of \<open>None\<close> it is \<open>None\<close> spelled out. \<open>ConfigParser.write\<close> writes the
  default section, when it is not empty, and then every section.
\<close>

definition str_value :: "string option \<Rightarrow> string" where
  "str_value v = (case v of None \<Rightarrow> ''None'' | Some s \<Rightarrow> s)"

definition write_section :: "string \<Rightarrow> (string \<times> string option) list \<Rightarrow> string" where
  "write_section section_name section_items =
     concat (map (\<lambda>(key, val).
        key @ ('' '' @ replace (CHR 0x0A) [CHR 0x0A, CHR 0x09] (str_value val)) @ [CHR 0x0A])
       section_items) @ [CHR 0x0A]"

definition write_config :: "config \<Rightarrow> string" where
  "write_config cfg =
     (if cfg_defaults cfg \<noteq> [] then write_section default_section (cfg_defaults cfg) else []) @
     concat (map (\<lambda>(section, items). write_section section items) (cfg_sections cfg))"


subsection \<open>The lines of a parameter file\<close>

text \<open>
  The vocabulary of the statements about parsing, in terms of the whitespace-separated
  tokens of a line: a blank line has no token; a comment line has a first token that
  starts with one of the comment prefixes; a keyed line is any other line whose first
  token, its key, contains no \<open>=\<close> and does not start with \<open>[\<close>. The value of a
  line is its second token, when it has one.
\<close>

definition par_blank :: "string \<Rightarrow> bool" where
  "par_blank line = (split_ws line = [])"

definition par_comment :: "string \<Rightarrow> bool" where
  "par_comment line = (case split_ws line of [] \<Rightarrow> False | k # _ \<Rightarrow> hd k \<in> set ''!/#'')"

definition par_keyed :: "string \<Rightarrow> bool" where
  "par_keyed line =
     (case split_ws line of
        [] \<Rightarrow> False
      | k # _ \<Rightarrow> hd k \<notin> set ''!/#['' \<and> CHR ''='' \<notin> set k)"

definition par_key :: "string \<Rightarrow> string" where
  "par_key line = (case split_ws line of [] \<Rightarrow> [] | k # _ \<Rightarrow> k)"

definition par_value :: "string \<Rightarrow> string option" where
  "par_value line = (case split_ws line of _ # v # _ \<Rightarrow> Some v | _ \<Rightarrow> None)"

text \<open>
  The state of \<open>_read\<close> between two lines of a file of blank, comment and keyed
  lines: inside the section \<open>general\<close>, no error recorded, and for every keyed line
  read so far its key with its value followed by the empty lines appended since.
\<close>

definition read_value_of :: "pval \<Rightarrow> string option \<Rightarrow> bool" where
  "read_value_of pv ov =
     (case ov of
        None \<Rightarrow> pv = NoValue
      | Some v \<Rightarrow> v \<noteq> [] \<and> (\<forall>c \<in> set v. \<not> isspace c) \<and> (\<exists>n. pv = Lines (v # replicate n [])))"

definition reading_general ::
  "raw_section \<Rightarrow> read_state \<Rightarrow> (string \<times> string option) list \<Rightarrow> bool" where
  "reading_general d st es =
     (\<exists>items.
        rs_defaults st = d \<and> rs_sections st = [(''general'', items)] \<and>
        rs_cursect st = Some (AtSection ''general'') \<and> rs_sectname st = Some ''general'' \<and>
        rs_indent_level st = 0 \<and> rs_e st = [] \<and>
        (rs_optname st = None \<or> (\<exists>k \<in> fst ` set items. rs_optname st = Some k)) \<and>
        set (rs_elements_added st) =
          insert (''general'', None) ((\<lambda>k. (''general'', Some k)) ` fst ` set items) \<and>
        list_all2 (\<lambda>(k, pv) (k', ov). k = k' \<and> read_value_of pv ov) items es)"


subsection \<open>Attributes\<close>

text \<open>
  The name handed to the configuration helpers by \<open>LFP.get_attribute_value\<close> and
  \<open>LFP.set_attribute_value\<close>, lines 272 to 275 and 282 to 285:
  \<open>'general:{}'.format(attribute_name)\<close> for a name without colon, and otherwise
  \<open>'general:{}'.format(attribute_name.split(':')[1])\<close>. A name with a colon has at
  least two pieces, so the index 1 exists.
\<close>

definition attribute_key :: "string \<Rightarrow> string" where
  "attribute_key attribute_name =
     (if CHR '':'' \<notin> set attribute_name then ''general:'' @ attribute_name
      else ''general:'' @ (split_on (CHR '':'') attribute_name ! 1))"

text \<open>
  Modelled from the spec: \<open>glib.configget\<close> and \<open>glib.configset\<close> of
  \<open>glofrim/glofrim_lib.py\<close>, which is not among the sources. They address an option
  as \<open>section:option\<close>. Reading looks the option up in the section and then in the
  defaults (the reference date has its default there); writing stores the string in
  the section, which is created when it is missing.
\<close>

definition configget :: "config \<Rightarrow> string \<Rightarrow> string option outcome" where
  "configget cfg attribute_name =
     (case split_on (CHR '':'') attribute_name of
        [section, option] \<Rightarrow>
          (case map_of (cfg_sections cfg) section of
             None \<Rightarrow> Raise NoSectionError
           | Some items \<Rightarrow>
               (case map_of items option of
                  Some v \<Rightarrow> Ok v
                | None \<Rightarrow>
                    (case map_of (cfg_defaults cfg) option of
                       Some v \<Rightarrow> Ok v
                     | None \<Rightarrow> Raise NoOptionError)))
      | _ \<Rightarrow> Raise ValueError)"

definition configset :: "config \<Rightarrow> string \<Rightarrow> string \<Rightarrow> config outcome" where
  "configset cfg attribute_name attribute_value =
     (case split_on (CHR '':'') attribute_name of
        [section, option] \<Rightarrow>
          Ok (cfg\<lparr>cfg_sections :=
                 (if section \<in> fst ` set (cfg_sections cfg)
                  then AList.map_entry section (AList.update option (Some attribute_value))
                         (cfg_sections cfg)
                  else cfg_sections cfg @ [(section, [(option, Some attribute_value)])])\<rparr>)
      | _ \<Rightarrow> Raise ValueError)"

subsection \<open>The adapter and its engine\<close>

text \<open>
  A \<open>datetime\<close> and a \<open>timedelta\<close> are whole numbers of microseconds, the resolution
  of both Python types (their range limits are not modelled). A number of seconds, as
  the engine reports it and as the caller passes it, is a rational number:
  \<open>timedelta(seconds=x)\<close> rounds \<open>x\<close> to whole microseconds, ties to even, and
  \<open>total_seconds\<close> divides by a million. The arithmetic is exact where Python
  computes in binary floating point.
\<close>

type_synonym datetime = int

type_synonym timedelta = int

definition round_half_even :: "rat \<Rightarrow> int" where
  "round_half_even x =
     (let f = \<lfloor>x\<rfloor>; r = x - of_int f
      in if r < 1 / 2 then f else if 1 / 2 < r then f + 1 else if even f then f else f + 1)"

definition timedelta_seconds :: "rat \<Rightarrow> timedelta" where
  "timedelta_seconds x = round_half_even (x * 1000000)"

definition total_seconds :: "timedelta \<Rightarrow> rat" where
  "total_seconds td = of_int td / 1000000"

text \<open>
  What the adapter calls and does not define: the functions of the wrapped engine
  (\<open>bmi.wrapper.BMIWrapper\<close>) on the engine's state \<open>'e\<close>, and
  \<open>datetime.strptime\<close> for the format \<open>%Y-%m-%d\<close>, which gives no result where
  Python raises \<open>ValueError\<close>.
\<close>

record 'e externals =
  bmi_update :: "'e \<Rightarrow> 'e"
  bmi_get_start_time :: "'e \<Rightarrow> rat"
  bmi_get_current_time :: "'e \<Rightarrow> rat"
  bmi_get_end_time :: "'e \<Rightarrow> rat"
  bmi_get_time_step :: "'e \<Rightarrow> rat"
  strptime :: "string \<Rightarrow> datetime option"

text \<open>
  The attributes of an \<open>LFP\<close> object that the time control reads and writes:
  \<open>_bmi\<close> (the state of the engine), \<open>initialized\<close>, \<open>_config\<close> (absent until
  \<open>initialize_config\<close> has run), \<open>_dt\<close>, \<open>_startTime\<close>, \<open>_endTime\<close> and \<open>_t\<close>,
  which \<open>initialize_config\<close> creates with \<open>_config\<close>. \<open>lfp_log\<close> holds, for every
  message that \<open>update\<close> logs at level info, the time and the number of iterations
  in it.
\<close>

record 'e lfp =
  lfp_bmi :: 'e
  lfp_initialized :: bool
  lfp_config :: "config option"
  lfp_dt :: timedelta
  lfp_startTime :: datetime
  lfp_endTime :: datetime
  lfp_t :: datetime
  lfp_log :: "(datetime \<times> nat) list"

text \<open>
  \<open>LFP.get_attribute_value\<close>, lines 269 to 277, and \<open>LFP.set_attribute_value\<close>,
  lines 279 to 287. Modelled from the spec: \<open>glib.configcheck\<close>, which is not among
  the sources, fails when no configuration has been loaded.
\<close>

definition get_attribute_value :: "'e lfp \<Rightarrow> string \<Rightarrow> string option outcome" where
  "get_attribute_value self attribute_name =
     (case lfp_config self of
        None \<Rightarrow> Raise NotConfiguredError
      | Some cfg \<Rightarrow> configget cfg (attribute_key attribute_name))"

definition set_attribute_value :: "'e lfp \<Rightarrow> string \<Rightarrow> string \<Rightarrow> unit outcome \<times> 'e lfp" where
  "set_attribute_value self attribute_name attribute_value =
     (case lfp_config self of
        None \<Rightarrow> (Raise NotConfiguredError, self)
      | Some cfg \<Rightarrow>
          (case configset cfg (attribute_key attribute_name) attribute_value of
             Raise err \<Rightarrow> (Raise err, self)
           | Ok cfg' \<Rightarrow> (Ok (), self\<lparr>lfp_config := Some cfg'\<rparr>)))"

text \<open>
  \<open>LFP.get_start_time\<close>, lines 124 to 133. \<open>strptime\<close> of \<open>None\<close>, the value of an
  option without value, raises \<open>TypeError\<close>.
\<close>

definition get_start_time :: "'e externals \<Rightarrow> 'e lfp \<Rightarrow> datetime outcome \<times> 'e lfp" where
  "get_start_time ext self =
     (case get_attribute_value self ''refdate'' of
        Raise err \<Rightarrow> (Raise err, self)
      | Ok None \<Rightarrow> (Raise TypeError, self)
      | Ok (Some refdate_str) \<Rightarrow>
          (case strptime ext refdate_str of
             None \<Rightarrow> (Raise ValueError, self)
           | Some refdate \<Rightarrow>
               (let TStart = (if lfp_initialized self then bmi_get_start_time ext (lfp_bmi self)
                              else 0);
                    startTime = refdate + timedelta_seconds TStart
                in (Ok startTime, self\<lparr>lfp_startTime := startTime\<rparr>))))"

text \<open>\<open>LFP.get_current_time\<close>, lines 135 to 140.\<close>

definition get_current_time :: "'e externals \<Rightarrow> 'e lfp \<Rightarrow> datetime outcome \<times> 'e lfp" where
  "get_current_time ext self =
     (if lfp_initialized self then
        (let curtime = timedelta_seconds (bmi_get_current_time ext (lfp_bmi self))
         in (Ok (lfp_startTime self + curtime), self))
      else get_start_time ext self)"

text \<open>
  \<open>LFP.update\<close>, lines 83 to 101. The loop of lines 97 to 100 runs as long as the
  engine does not reach \<open>t_next\<close>: the function gives \<open>None\<close> when it never ends.
\<close>

partial_function (option) update_loop ::
  "'e externals \<Rightarrow> datetime \<Rightarrow> 'e lfp \<Rightarrow> nat \<Rightarrow> (unit outcome \<times> 'e lfp \<times> nat) option" where
  "update_loop ext t_next self i =
     (if lfp_t self < t_next then
        (let self = self\<lparr>lfp_bmi := bmi_update ext (lfp_bmi self)\<rparr>
         in case get_current_time ext self of
              (Raise err, self) \<Rightarrow> Some (Raise err, self, i)
            | (Ok now, self) \<Rightarrow> update_loop ext t_next (self\<lparr>lfp_t := now\<rparr>) (i + 1))
      else Some (Ok (), self, i))"

declare update_loop.simps [code]

definition update :: "'e externals \<Rightarrow> rat option \<Rightarrow> 'e lfp \<Rightarrow> (unit outcome \<times> 'e lfp) option" where
  "update ext dt self =
     (if lfp_t self \<ge> lfp_endTime self then Some (Raise EndTimeReached, self)
      else
        (let dt = (case dt of
                     Some d \<Rightarrow> if d \<noteq> total_seconds (lfp_dt self) then timedelta_seconds d
                               else lfp_dt self
                   | None \<Rightarrow> lfp_dt self)
         in case get_current_time ext self of
              (Raise err, self) \<Rightarrow> Some (Raise err, self)
            | (Ok now, self) \<Rightarrow>
                (let t_next = now + dt
                 in case update_loop ext t_next self 0 of
                      None \<Rightarrow> None
                    | Some (Raise err, self, i) \<Rightarrow> Some (Raise err, self)
                    | Some (Ok u, self, i) \<Rightarrow>
                        Some (Ok (), self\<lparr>lfp_log := lfp_log self @ [(lfp_t self, i)]\<rparr>))))"

text \<open>\<open>LFP.update_until\<close>, lines 103 to 107.\<close>

partial_function (option) update_until_loop ::
  "'e externals \<Rightarrow> datetime \<Rightarrow> rat option \<Rightarrow> 'e lfp \<Rightarrow> (unit outcome \<times> 'e lfp) option" where
  "update_until_loop ext t dt self =
     (if lfp_t self < t then
        (case update ext dt self of
           None \<Rightarrow> None
         | Some (Raise err, self) \<Rightarrow> Some (Raise err, self)
         | Some (Ok u, self) \<Rightarrow> update_until_loop ext t dt self)
      else Some (Ok (), self))"

declare update_until_loop.simps [code]

definition update_until ::
  "'e externals \<Rightarrow> datetime \<Rightarrow> rat option \<Rightarrow> 'e lfp \<Rightarrow> (unit outcome \<times> 'e lfp) option" where
  "update_until ext t dt self =
     (if t < lfp_t self \<or> t > lfp_endTime self then Some (Raise WrongTimeInput, self)
      else update_until_loop ext t dt self)"

text \<open>
  \<open>LFP.set_end_time\<close>, lines 246 to 259. The argument is a string, a \<open>datetime\<close> or
  something else. \<open>decimal\<close> is \<open>'{:.0f}'.format(TStop)\<close> for an integer
  \<open>TStop\<close>: its decimal digits (the float that the format goes through is exact
  below \<open>2^53\<close>, beyond every difference of two datetimes in seconds).
\<close>

datatype time_arg = TimeStr string | TimeDatetime datetime | TimeOther

definition digit_char :: "nat \<Rightarrow> char" where
  "digit_char d = ''0123456789'' ! d"

fun digits :: "nat \<Rightarrow> string \<Rightarrow> string" where
  "digits n acc =
     (if n < 10 then digit_char n # acc
      else digits (n div 10) (digit_char (n mod 10) # acc))"

declare digits.simps [simp del]

definition decimal :: "int \<Rightarrow> string" where
  "decimal n = (if n < 0 then CHR ''-'' # digits (nat (- n)) [] else digits (nat n) [])"

definition td_days :: "timedelta \<Rightarrow> int" where
  "td_days td = td div 86400000000"

definition td_seconds :: "timedelta \<Rightarrow> int" where
  "td_seconds td = (td mod 86400000000) div 1000000"

definition set_end_time :: "'e externals \<Rightarrow> time_arg \<Rightarrow> 'e lfp \<Rightarrow> unit outcome \<times> 'e lfp" where
  "set_end_time ext end_time self =
     (case (case end_time of
              TimeStr s \<Rightarrow> (case strptime ext s of None \<Rightarrow> Raise ValueError | Some d \<Rightarrow> Ok d)
            | TimeDatetime d \<Rightarrow> Ok d
            | TimeOther \<Rightarrow> Raise ValueError) of
        Raise err \<Rightarrow> (Raise err, self)
      | Ok end_time \<Rightarrow>
          (case get_start_time ext self of
             (Raise err, self) \<Rightarrow> (Raise err, self)
           | (Ok refdate, self) \<Rightarrow>
               if \<not> end_time > refdate then (Raise AssertionError, self)
               else
                 (let TStop = td_seconds (end_time - refdate) + td_days (end_time - refdate) * 86400;
                      TStop = decimal TStop;
                      self = self\<lparr>lfp_endTime := end_time\<rparr>
                  in set_attribute_value self ''sim_time'' TStop)))"


text \<open>
  One turn of the loop body of \<open>update\<close>, lines 98 to 100, on an initialized
  adapter: the engine takes a native step and \<open>_t\<close> becomes the start time plus the
  engine's current time.
\<close>

definition native_step :: "'e externals \<Rightarrow> 'e lfp \<Rightarrow> 'e lfp" where
  "native_step ext self =
     self\<lparr>lfp_bmi := bmi_update ext (lfp_bmi self),
          lfp_t := lfp_startTime self +
                   timedelta_seconds (bmi_get_current_time ext (bmi_update ext (lfp_bmi self)))\<rparr>"


text \<open>
  Reading a string of decimal digits back, as Python's \<open>int(s)\<close> does: the value of
  a digit is its place among the ten digits, and the digits count from the right in
  powers of ten. \<open>le_value\<close> takes the least significant digit first.
\<close>

definition digit_value :: "char \<Rightarrow> nat" where
  "digit_value c = length (takeWhile (\<lambda>d. d \<noteq> c) ''0123456789'')"

fun le_value :: "string \<Rightarrow> nat" where
  "le_value [] = 0"
| "le_value (c # cs) = digit_value c + 10 * le_value cs"

definition int_of_digits :: "string \<Rightarrow> nat" where
  "int_of_digits s = le_value (rev s)"


section \<open>Properties\<close>

subsection \<open>The mask of an edge-valued variable\<close>

lemma shape_array: "is_array h w a \<Longrightarrow> shape a = (h, w)"
  by (cases a) (auto simp: is_array_def shape_def)

lemma row_length: "is_array h w a \<Longrightarrow> i < h \<Longrightarrow> length (a ! i) = w"
  by (simp add: is_array_def list_all_length)


lemma shape_tabulate:
  "shape (map (\<lambda>i. map (f i) [0..<n]) [0..<m]) = (m, if m = 0 then 0 else n)"
  by (cases m) (simp_all add: shape_def upt_conv_Cons del: upt_Suc)

lemma conv_shape:
  assumes "shape in1 = (h1, w1)" "shape in2 = (h2, w2)" "0 < h1 + h2 - 1"
  shows "shape (convolve2d in1 in2) = (h1 + h2 - 1, w1 + w2 - 1)"
  using assms unfolding convolve2d_def by (simp add: shape_tabulate)

lemma conv_nth:
  assumes "shape in1 = (h1, w1)" "shape in2 = (h2, w2)" "i < h1 + h2 - 1" "j < w1 + w2 - 1"
  shows "convolve2d in1 in2 ! i ! j =
           (\<Sum>p\<leftarrow>[0..<h2]. \<Sum>q\<leftarrow>[0..<w2].
                if p \<le> i \<and> i - p < h1 \<and> q \<le> j \<and> j - q < w1
                then in2 ! p ! q * in1 ! (i - p) ! (j - q) else 0)"
  using assms unfolding convolve2d_def by (simp cong: if_cong)

lemma conv_length:
  assumes "shape in1 = (h1, w1)" "shape in2 = (h2, w2)"
  shows "length (convolve2d in1 in2) = h1 + h2 - 1"
    and "i < h1 + h2 - 1 \<Longrightarrow> length (convolve2d in1 in2 ! i) = w1 + w2 - 1"
  using assms unfolding convolve2d_def by simp_all

lemma upt_0_2: "[0..<2] = [0, Suc 0]" "[0..<Suc 0] = [0]"
  by (simp_all add: upt_conv_Cons)

lemma conv_row_kernel:
  assumes "shape a = (h, w)" "i < h" "j < Suc w"
  shows "convolve2d a [[1, 1]] ! i ! j =
           (if j < w then a ! i ! j else 0) + (if 0 < j then a ! i ! (j - 1) else 0)"
proof -
  have k: "shape [[1, 1 :: int]] = (1, 2)" by (simp add: shape_def)
  show ?thesis
    using assms by (subst conv_nth[OF assms(1) k]) (auto simp: upt_0_2)
qed

lemma conv_col_kernel:
  assumes "shape a = (h, w)" "i < Suc h" "j < w"
  shows "convolve2d a [[1], [1]] ! i ! j =
           (if i < h then a ! i ! j else 0) + (if 0 < i then a ! (i - 1) ! j else 0)"
proof -
  have k: "shape [[1], [1 :: int]] = (2, 1)" by (simp add: shape_def)
  show ?thesis
    using assms by (subst conv_nth[OF assms(1) k]) (auto simp: upt_0_2)
qed

lemma as_float_array: "is_array h w m \<Longrightarrow> is_array h w (as_float m)"
  by (simp add: is_array_def as_float_def list_all_length)

lemma vstack_array: "is_array h w a \<Longrightarrow> is_array h' w b \<Longrightarrow> is_array (h + h') w (vstack a b)"
  by (simp add: is_array_def vstack_def)

lemma hstack_array: "is_array h w a \<Longrightarrow> is_array h w' b \<Longrightarrow> is_array h (w + w') (hstack a b)"
  by (auto simp: is_array_def hstack_def list_all_length)

lemma zeros_array: "0 < h \<Longrightarrow> 0 < w \<Longrightarrow> is_array h w (zeros h w)"
  by (simp add: is_array_def zeros_def list_all_length)

lemma get_mask_Qx_shape:
  assumes "is_array h w m" "name \<in> {''Qx'', ''QxSGold''}"
  shows "shape (get_mask name m) = (Suc h, Suc w)"
proof -
  have "is_array (h + 1) w (vstack (as_float m) (zeros 1 w))"
    using assms(1) by (intro vstack_array as_float_array zeros_array) (auto simp: is_array_def)
  then have s: "shape (vstack (as_float m) (zeros 1 w)) = (Suc h, w)"
    by (simp add: shape_array)
  have k: "shape [[1, 1 :: int]] = (1, 2)" by (simp add: shape_def)
  have "shape (as_bool (convolve2d (vstack (as_float m) (zeros 1 w)) [[1, 1]])) = (Suc h, Suc w)"
    using conv_shape[OF s k] by (simp add: as_bool_def shape_def split: list.splits)
  then show ?thesis
    using assms by (auto simp: get_mask_def shape_array)
qed

lemma get_mask_Qx_nth:
  assumes "is_array h w m" "name \<in> {''Qx'', ''QxSGold''}" "i \<le> h" "j \<le> w"
  shows "get_mask name m ! i ! j =
           (i < h \<and> ((j < w \<and> m ! i ! j) \<or> (0 < j \<and> m ! i ! (j - 1))))"
proof -
  define a where "a = vstack (as_float m) (zeros 1 w)"
  have "is_array (h + 1) w a"
    unfolding a_def using assms(1)
    by (intro vstack_array as_float_array zeros_array) (auto simp: is_array_def)
  then have s: "shape a = (Suc h, w)"
    by (simp add: shape_array)
  have k: "shape [[1, 1 :: int]] = (1, 2)" by (simp add: shape_def)
  have len: "length (convolve2d a [[1, 1]]) = Suc h" "length (convolve2d a [[1, 1]] ! i) = Suc w"
    using assms(3) conv_length[OF s k] by simp_all
  have a_nth: "a ! i' ! j' = (if i' < h \<and> m ! i' ! j' then 1 else 0)"
    if "i' \<le> h" "j' < w" for i' j'
    using assms(1) that
    by (auto simp: a_def vstack_def as_float_def zeros_def nth_append is_array_def list_all_length)
  have "get_mask name m ! i ! j = (convolve2d a [[1, 1]] ! i ! j \<noteq> 0)"
    using assms len by (auto simp: get_mask_def shape_array as_bool_def a_def)
  also have "\<dots> = (i < h \<and> ((j < w \<and> m ! i ! j) \<or> (0 < j \<and> m ! i ! (j - 1))))"
    using assms(3,4) by (subst conv_row_kernel[OF s]) (auto simp: a_nth)
  finally show ?thesis .
qed

lemma get_mask_Qy_shape:
  assumes "is_array h w m" "name \<in> {''Qy'', ''QySGold''}"
  shows "shape (get_mask name m) = (Suc h, Suc w)"
proof -
  define a where "a = hstack (as_float m) (zeros h 1)"
  have "is_array h (w + 1) a"
    unfolding a_def using assms(1)
    by (intro hstack_array as_float_array zeros_array) (auto simp: is_array_def)
  then have s: "shape a = (h, Suc w)"
    by (simp add: shape_array)
  have k: "shape [[1], [1 :: int]] = (2, 1)" by (simp add: shape_def)
  have "shape (as_bool (convolve2d a [[1], [1]])) = (Suc h, Suc w)"
    using conv_shape[OF s k] by (simp add: as_bool_def shape_def split: list.splits)
  then show ?thesis
    using assms by (auto simp: get_mask_def shape_array a_def)
qed

lemma get_mask_Qy_nth:
  assumes "is_array h w m" "name \<in> {''Qy'', ''QySGold''}" "i \<le> h" "j \<le> w"
  shows "get_mask name m ! i ! j =
           (j < w \<and> ((i < h \<and> m ! i ! j) \<or> (0 < i \<and> m ! (i - 1) ! j)))"
proof -
  define a where "a = hstack (as_float m) (zeros h 1)"
  have "is_array h (w + 1) a"
    unfolding a_def using assms(1)
    by (intro hstack_array as_float_array zeros_array) (auto simp: is_array_def)
  then have s: "shape a = (h, Suc w)"
    by (simp add: shape_array)
  have k: "shape [[1], [1 :: int]] = (2, 1)" by (simp add: shape_def)
  have len: "length (convolve2d a [[1], [1]]) = Suc h" "length (convolve2d a [[1], [1]] ! i) = Suc w"
    using assms(3) conv_length[OF s k] by simp_all
  have a_nth: "a ! i' ! j' = (if j' < w \<and> m ! i' ! j' then 1 else 0)"
    if "i' < h" "j' \<le> w" for i' j'
    using assms(1) that
    by (auto simp: a_def hstack_def as_float_def zeros_def nth_append is_array_def list_all_length)
  have "get_mask name m ! i ! j = (convolve2d a [[1], [1]] ! i ! j \<noteq> 0)"
    using assms len by (auto simp: get_mask_def shape_array as_bool_def a_def)
  also have "\<dots> = (j < w \<and> ((i < h \<and> m ! i ! j) \<or> (0 < i \<and> m ! (i - 1) ! j)))"
    using assms(3,4) by (subst conv_col_kernel[OF s]) (auto simp: a_nth)
  finally show ?thesis .
qed

lemma get_mask_other:
  "name \<notin> {''Qx'', ''QxSGold'', ''Qy'', ''QySGold''} \<Longrightarrow> get_mask name m = m"
  by (simp add: get_mask_def)


lemma conv_array:
  assumes "shape in1 = (h1, w1)" "shape in2 = (h2, w2)" "0 < h1 + h2 - 1" "0 < w1 + w2 - 1"
  shows "is_array (h1 + h2 - 1) (w1 + w2 - 1) (as_bool (convolve2d in1 in2))"
  using assms conv_length[OF assms(1,2)]
  by (simp add: is_array_def as_bool_def list_all_length)

lemma get_mask_Qx_array:
  assumes "is_array h w m" "name \<in> {''Qx'', ''QxSGold''}"
  shows "is_array (Suc h) (Suc w) (get_mask name m)"
proof -
  define a where "a = vstack (as_float m) (zeros 1 w)"
  have "is_array (h + 1) w a"
    unfolding a_def using assms(1)
    by (intro vstack_array as_float_array zeros_array) (auto simp: is_array_def)
  then have s: "shape a = (Suc h, w)"
    by (simp add: shape_array)
  have k: "shape [[1, 1 :: int]] = (1, 2)" by (simp add: shape_def)
  have "is_array (Suc h) (Suc w) (as_bool (convolve2d a [[1, 1]]))"
    using conv_array[OF s k] by simp
  then show ?thesis
    using assms by (auto simp: get_mask_def shape_array a_def)
qed

lemma get_mask_Qy_array:
  assumes "is_array h w m" "name \<in> {''Qy'', ''QySGold''}"
  shows "is_array (Suc h) (Suc w) (get_mask name m)"
proof -
  define a where "a = hstack (as_float m) (zeros h 1)"
  have "is_array h (w + 1) a"
    unfolding a_def using assms(1)
    by (intro hstack_array as_float_array zeros_array) (auto simp: is_array_def)
  then have s: "shape a = (h, Suc w)"
    by (simp add: shape_array)
  have k: "shape [[1], [1 :: int]] = (2, 1)" by (simp add: shape_def)
  have "is_array (Suc h) (Suc w) (as_bool (convolve2d a [[1], [1]]))"
    using conv_array[OF s k] assms(1) by (simp add: is_array_def)
  then show ?thesis
    using assms by (auto simp: get_mask_def shape_array a_def)
qed

text \<open>
  Claim C1, as the code has it. Over a grid mask \<open>m\<close> of shape \<open>(h, w)\<close>:
  for \<open>Qx\<close> and \<open>QxSGold\<close> the mask returned has shape \<open>(h + 1, w + 1)\<close>, its
  cell \<open>(i, j)\<close> is true exactly when \<open>i < h\<close> and one of the grid cells
  \<open>(i, j - 1)\<close>, \<open>(i, j)\<close> that exist is true (the row added below stays false);
  for \<open>Qy\<close> and \<open>QySGold\<close> the shape is \<open>(h + 1, w + 1)\<close> as well and cell
  \<open>(i, j)\<close> is true exactly when \<open>j < w\<close> and one of the grid cells
  \<open>(i - 1, j)\<close>, \<open>(i, j)\<close> that exist is true (the column added on the right stays
  false); for every other name the grid mask is returned unchanged.
\<close>

theorem get_mask_edge_variables:
  assumes "is_array h w m"
  shows "(name \<in> {''Qx'', ''QxSGold''} \<longrightarrow>
            is_array (h + 1) (w + 1) (get_mask name m) \<and>
            shape (get_mask name m) = (h + 1, w + 1) \<and>
            (\<forall>i\<le>h. \<forall>j\<le>w. get_mask name m ! i ! j =
               (i < h \<and> ((j < w \<and> m ! i ! j) \<or> (0 < j \<and> m ! i ! (j - 1)))))) \<and>
         (name \<in> {''Qy'', ''QySGold''} \<longrightarrow>
            is_array (h + 1) (w + 1) (get_mask name m) \<and>
            shape (get_mask name m) = (h + 1, w + 1) \<and>
            (\<forall>i\<le>h. \<forall>j\<le>w. get_mask name m ! i ! j =
               (j < w \<and> ((i < h \<and> m ! i ! j) \<or> (0 < i \<and> m ! (i - 1) ! j))))) \<and>
         (name \<notin> {''Qx'', ''QxSGold'', ''Qy'', ''QySGold''} \<longrightarrow> get_mask name m = m)"
  using get_mask_Qx_array[OF assms, of name] get_mask_Qx_shape[OF assms, of name]
    get_mask_Qx_nth[OF assms, of name] get_mask_Qy_array[OF assms, of name]
    get_mask_Qy_shape[OF assms, of name] get_mask_Qy_nth[OF assms, of name]
    get_mask_other[of name m]
  by simp

theorem get_mask_edge_variables_witness:
  "is_array 1 2 [[True, False]] \<and>
   shape (get_mask ''Qx'' [[True, False]]) = (2, 3) \<and>
   get_mask ''Qx'' [[True, False]] ! 0 ! 1 \<and> \<not> get_mask ''Qx'' [[True, False]] ! 0 ! 2 \<and>
   \<not> get_mask ''Qx'' [[True, False]] ! 1 ! 0 \<and>
   shape (get_mask ''Qy'' [[True, False]]) = (2, 3) \<and>
   get_mask ''Qy'' [[True, False]] ! 1 ! 0 \<and> \<not> get_mask ''Qy'' [[True, False]] ! 1 ! 1 \<and>
   \<not> get_mask ''Qy'' [[True, False]] ! 0 ! 2 \<and>
   get_mask ''H'' [[True, False]] = [[True, False]]"
proof -
  have a: "is_array 1 2 [[True, False]]"
    by (simp add: is_array_def)
  show ?thesis
    using a get_mask_edge_variables[OF a, of "''Qx''"] get_mask_edge_variables[OF a, of "''Qy''"]
      get_mask_edge_variables[OF a, of "''H''"]
    by simp
qed

text \<open>
  The claim as the specification words it gives \<open>Qx\<close> a mask of shape \<open>(h + 1, w)\<close>
  with the disjunction over the cells \<open>(i - 1, j)\<close> and \<open>(i, j)\<close>. Over the one-cell
  grid \<open>[[True]]\<close> that would be the 2 by 1 mask \<open>[[True], [True]]\<close>; the code
  returns the 2 by 2 mask below.
\<close>

theorem get_mask_shape_counterexample:
  "get_mask ''Qx'' [[True]] = [[True, True], [False, False]] \<and>
   shape (get_mask ''Qx'' [[True]]) \<noteq> (1 + 1, 1) \<and>
   get_mask ''Qx'' [[True]] ! 1 ! 0 \<noteq> ([[True]] ! 0 ! 0)"
  by (simp add: get_mask_def vstack_def as_float_def zeros_def shape_def convolve2d_def
      as_bool_def)

subsection \<open>Setting and getting a variable\<close>

lemma broadcast_dim_same: "broadcast_dim n n = Some n"
  by (simp add: broadcast_dim_def)

lemma broadcast_shapes_same: "broadcast_shapes s s = Some s"
  by (simp add: broadcast_shapes_def broadcast_dim_same)

lemma broadcast_to_same:
  assumes "is_array h w a"
  shows "broadcast_to (h, w) a = a"
proof (rule nth_equalityI)
  show "length (broadcast_to (h, w) a) = length a"
    using assms by (simp add: broadcast_to_def is_array_def)
next
  fix i assume "i < length (broadcast_to (h, w) a)"
  then have i: "i < h" by (simp add: broadcast_to_def)
  have sh: "shape a = (h, w)" using assms by (rule shape_array)
  have len: "length (a ! i) = w" using assms i by (rule row_length)
  have ri: "(if h = 1 then 0 else i) = i" using i by auto
  have "map (\<lambda>j. a ! i ! (if w = 1 then 0 else j)) [0..<w] = a ! i"
    using len by (intro nth_equalityI) auto
  then show "broadcast_to (h, w) a ! i = a ! i"
    using i by (simp only: broadcast_to_def sh fst_conv snd_conv ri nth_map_upt
        length_upt diff_zero add_0 nth_map nth_upt)
qed

lemma zip_with_array:
  assumes "is_array h w a" "is_array h w b"
  shows "is_array h w (zip_with f a b)"
  using assms by (auto simp: is_array_def zip_with_def list_all_length)

lemma zip_with_nth:
  assumes "is_array h w a" "is_array h w b" "i < h" "j < w"
  shows "zip_with f a b ! i ! j = f (a ! i ! j) (b ! i ! j)"
  using assms by (auto simp: is_array_def zip_with_def list_all_length)

lemma map_map_array: "is_array h w a \<Longrightarrow> is_array h w (map (map f) a)"
  by (auto simp: is_array_def list_all_length)

lemma map_map_nth: "is_array h w a \<Longrightarrow> i < h \<Longrightarrow> j < w \<Longrightarrow> map (map f) a ! i ! j = f (a ! i ! j)"
  by (auto simp: is_array_def list_all_length)

lemma set_value_src:
  assumes "is_array h w src" "is_array h w (get_mask name gm)"
  shows "fst (snd (set_value astype gm vars name src fill)) =
           zip_with (\<lambda>m x. if m \<and> isnan x then Num 0 else x) (get_mask name gm) src"
  using assms
  by (auto simp: set_value_def Let_def shape_array broadcast_shapes_same broadcast_to_same
      split: option.splits)

lemma set_value_ok:
  assumes "is_array h w src" "is_array h w (get_mask name gm)" "vars name = Some var"
    "is_array h w var"
  shows "set_value astype gm vars name src fill =
           (Ok (), zip_with (\<lambda>m x. if m \<and> isnan x then Num 0 else x) (get_mask name gm) src,
            vars(name \<mapsto> map (map (\<lambda>x. astype name (if isnan x then fill else x)))
               (zip_with (\<lambda>m x. if m \<and> isnan x then Num 0 else x) (get_mask name gm) src)))"
proof -
  let ?src1 = "zip_with (\<lambda>m x. if m \<and> isnan x then Num 0 else x) (get_mask name gm) src"
  let ?src2 = "map (map (\<lambda>x. astype name (if isnan x then fill else x))) ?src1"
  have a2: "is_array h w ?src2"
    using assms(1,2) by (intro map_map_array zip_with_array)
  show ?thesis
    using assms a2
    by (simp add: set_value_def Let_def shape_array broadcast_shapes_same broadcast_to_same)
qed


lemma array_eqI:
  assumes "is_array h w a" "is_array h w b" "\<And>i j. i < h \<Longrightarrow> j < w \<Longrightarrow> a ! i ! j = b ! i ! j"
  shows "a = b"
proof (rule nth_equalityI)
  show "length a = length b" using assms(1,2) by (simp add: is_array_def)
next
  fix i assume "i < length a"
  then have i: "i < h" using assms(1) by (simp add: is_array_def)
  show "a ! i = b ! i"
    using row_length[OF assms(1) i] row_length[OF assms(2) i] assms(3)[OF i]
    by (intro nth_equalityI) auto
qed

lemma get_value_ok:
  assumes "is_array h w (get_mask name gm)" "vars name = Some var" "is_array h w var"
  shows "get_value gm vars name = Ok (zip_with (\<lambda>m x. if \<not> m then NaN else x) (get_mask name gm) var)"
  using assms by (simp add: get_value_def shape_array)

text \<open>
  Claim C7. For a variable the engine knows, a source array of the native shape of
  the variable (the shape of the engine's array and of the derived mask) and free of
  not-a-number cells: \<open>set_value\<close> returns normally and leaves the source as it was,
  and \<open>get_value\<close> then returns an array of that shape holding the cast of the
  source cell at every position where the derived mask is true. Where the mask is
  false \<open>get_value\<close> returns not-a-number.
\<close>

theorem set_value_then_get_value:
  assumes "is_array h w src" and "is_array h w (get_mask name gm)"
    and "vars name = Some var" and "is_array h w var"
    and "\<forall>i<h. \<forall>j<w. \<not> isnan (src ! i ! j)"
  shows "\<exists>vars' out.
           set_value astype gm vars name src fill = (Ok (), src, vars') \<and>
           get_value gm vars' name = Ok out \<and> is_array h w out \<and>
           (\<forall>i<h. \<forall>j<w. get_mask name gm ! i ! j \<longrightarrow> out ! i ! j = astype name (src ! i ! j)) \<and>
           (\<forall>i<h. \<forall>j<w. \<not> get_mask name gm ! i ! j \<longrightarrow> out ! i ! j = NaN)"
proof -
  let ?mask = "get_mask name gm"
  let ?src1 = "zip_with (\<lambda>m x. if m \<and> isnan x then Num 0 else x) ?mask src"
  let ?src2 = "map (map (\<lambda>x. astype name (if isnan x then fill else x))) src"
  let ?out = "zip_with (\<lambda>m x. if \<not> m then NaN else x) ?mask ?src2"
  have a1: "is_array h w ?src1"
    using assms(1,2) by (intro zip_with_array)
  have "?src1 = src"
    using a1 assms(1)
  proof (rule array_eqI)
    fix i j assume "i < h" "j < w"
    then show "?src1 ! i ! j = src ! i ! j"
      using assms(5) by (simp add: zip_with_nth[OF assms(2,1)])
  qed
  then have sv: "set_value astype gm vars name src fill = (Ok (), src, vars(name \<mapsto> ?src2))"
    using set_value_ok[of h w src name gm vars var astype fill] assms(1-4) by simp
  have a2: "is_array h w ?src2"
    using assms(1) by (rule map_map_array)
  have gv: "get_value gm (vars(name \<mapsto> ?src2)) name = Ok ?out"
    using get_value_ok[of h w name gm "vars(name \<mapsto> ?src2)" ?src2] assms(2) a2 by simp
  have ao: "is_array h w ?out"
    using assms(2) a2 by (rule zip_with_array)
  have cells: "?out ! i ! j = (if ?mask ! i ! j then astype name (src ! i ! j) else NaN)"
    if "i < h" "j < w" for i j
    using that assms(5)
    by (simp add: zip_with_nth[OF assms(2) a2] map_map_nth[OF assms(1)])
  show ?thesis
    using sv gv ao cells by simp
qed

text \<open>
  Claim C10. For a source array of the shape of the derived mask, the caller's array
  after \<open>set_value\<close> holds 0 at every position where the mask is true and the
  caller's cell was not-a-number, and the caller's cell everywhere else. This is so
  whatever the engine does afterwards: when the engine does not know the variable the
  call fails and the caller's array is changed all the same, and when it does, its
  buffer receives the cast of the cells of the changed array, with \<open>fill_value\<close>
  for those still not-a-number.
\<close>

theorem set_value_writes_caller_array:
  assumes "is_array h w src" and "is_array h w (get_mask name gm)"
  shows "is_array h w (fst (snd (set_value astype gm vars name src fill))) \<and>
         (\<forall>i<h. \<forall>j<w. fst (snd (set_value astype gm vars name src fill)) ! i ! j =
            (if get_mask name gm ! i ! j \<and> isnan (src ! i ! j) then Num 0 else src ! i ! j)) \<and>
         (vars name = None \<longrightarrow> fst (set_value astype gm vars name src fill) = Raise EngineError) \<and>
         (\<forall>var. vars name = Some var \<and> is_array h w var \<longrightarrow>
            fst (set_value astype gm vars name src fill) = Ok () \<and>
            snd (snd (set_value astype gm vars name src fill)) name =
              Some (map (map (\<lambda>x. astype name (if isnan x then fill else x)))
                     (fst (snd (set_value astype gm vars name src fill)))))"
proof -
  let ?mask = "get_mask name gm"
  let ?src1 = "zip_with (\<lambda>m x. if m \<and> isnan x then Num 0 else x) ?mask src"
  have s1: "fst (snd (set_value astype gm vars name src fill)) = ?src1"
    using assms by (rule set_value_src)
  have a1: "is_array h w ?src1"
    using assms(2,1) by (rule zip_with_array)
  have cells: "\<forall>i<h. \<forall>j<w. ?src1 ! i ! j =
      (if ?mask ! i ! j \<and> isnan (src ! i ! j) then Num 0 else src ! i ! j)"
    by (simp add: zip_with_nth[OF assms(2,1)])
  have none: "vars name = None \<longrightarrow> fst (set_value astype gm vars name src fill) = Raise EngineError"
    using assms
    by (simp add: set_value_def Let_def shape_array broadcast_shapes_same)
  have some: "\<forall>var. vars name = Some var \<and> is_array h w var \<longrightarrow>
      fst (set_value astype gm vars name src fill) = Ok () \<and>
      snd (snd (set_value astype gm vars name src fill)) name =
        Some (map (map (\<lambda>x. astype name (if isnan x then fill else x))) ?src1)"
  proof (intro allI impI)
    fix var assume "vars name = Some var \<and> is_array h w var"
    then show "fst (set_value astype gm vars name src fill) = Ok () \<and>
      snd (snd (set_value astype gm vars name src fill)) name =
        Some (map (map (\<lambda>x. astype name (if isnan x then fill else x))) ?src1)"
      using set_value_ok[of h w src name gm vars var astype fill] assms by simp
  qed
  show ?thesis
    unfolding s1 using a1 cells none some by blast
qed

theorem set_value_then_get_value_witness:
  "is_array 1 2 [[Num 5, Num (6::int)]] \<and> is_array 1 2 (get_mask ''H'' [[True, False]]) \<and>
   (\<exists>vars'. set_value (\<lambda>n x. x) [[True, False]] [''H'' \<mapsto> [[Num 1, Num 2]]] ''H''
               [[Num 5, Num (6::int)]] (Num 0) = (Ok (), [[Num 5, Num 6]], vars') \<and>
             get_value [[True, False]] vars' ''H'' = Ok [[Num 5, NaN]])"
proof -
  have a: "is_array 1 2 [[Num 5, Num (6::int)]]" "is_array 1 2 (get_mask ''H'' [[True, False]])"
    "is_array 1 2 [[Num 1, Num (2::int)]]"
    by (simp_all add: is_array_def get_mask_def)
  have n: "\<forall>i<1. \<forall>j<2. \<not> isnan ([[Num 5, Num (6::int)]] ! i ! j)"
    by (simp add: isnan_def less_Suc_eq numeral_2_eq_2)
  have v: "[''H'' \<mapsto> [[Num 1, Num (2::int)]]] ''H'' = Some [[Num 1, Num 2]]"
    by simp
  obtain vars' out where
    r: "set_value (\<lambda>n x. x) [[True, False]] [''H'' \<mapsto> [[Num 1, Num 2]]] ''H''
               [[Num 5, Num 6]] (Num 0) = (Ok (), [[Num 5, Num (6::int)]], vars')"
      "get_value [[True, False]] vars' ''H'' = Ok out"
    using set_value_then_get_value[of 1 2 "[[Num 5, Num (6::int)]]" "''H''" "[[True, False]]"
        "[''H'' \<mapsto> [[Num 1, Num 2]]]" "[[Num 1, Num 2]]" "\<lambda>n x. x" "Num 0"] a v n
    by blast
  have "out = [[Num 5, NaN]]"
    using r
    by (auto simp: set_value_def get_value_def get_mask_def Let_def shape_def
        broadcast_shapes_def broadcast_dim_def broadcast_to_def zip_with_def isnan_def
        upt_conv_Cons split: if_splits)
  then show ?thesis using a r by blast
qed


theorem set_value_writes_caller_array_witness:
  "is_array 1 2 [[NaN, NaN :: int float]] \<and> is_array 1 2 (get_mask ''H'' [[True, False]]) \<and>
   fst (snd (set_value (\<lambda>n x. x) [[True, False]] Map.empty ''H'' [[NaN, NaN :: int float]]
     (Num 7))) = [[Num 0, NaN]] \<and>
   fst (set_value (\<lambda>n x. x) [[True, False]] Map.empty ''H'' [[NaN, NaN :: int float]]
     (Num 7)) = Raise EngineError \<and>
   snd (snd (set_value (\<lambda>n x. x) [[True, False]] [''H'' \<mapsto> [[Num 1, Num 2]]] ''H''
     [[NaN, NaN :: int float]] (Num 7))) ''H'' = Some [[Num 0, Num 7]]"
proof -
  let ?src = "[[NaN, NaN :: int float]]"
  let ?vars = "[''H'' \<mapsto> [[Num 1, Num (2::int)]]]"
  have a: "is_array 1 2 ?src" "is_array 1 2 (get_mask ''H'' [[True, False]])"
    "is_array 1 2 [[Num 1, Num (2::int)]]"
    by (simp_all add: is_array_def get_mask_def)
  note e = set_value_writes_caller_array[OF a(1,2), of "\<lambda>n x. x" Map.empty "Num 7"]
  note f = set_value_writes_caller_array[OF a(1,2), of "\<lambda>n x. x" ?vars "Num 7"]
  have m: "get_mask ''H'' [[True, False]] = [[True, False]]"
    by (simp add: get_mask_def)
  have c: "fst (snd (set_value (\<lambda>n x. x) [[True, False]] Map.empty ''H'' ?src (Num 7))) ! 0 ! 0
             = Num 0"
    "fst (snd (set_value (\<lambda>n x. x) [[True, False]] Map.empty ''H'' ?src (Num 7))) ! 0 ! 1
             = NaN"
    using e by (simp_all add: m isnan_def)
  have "fst (snd (set_value (\<lambda>n x. x) [[True, False]] Map.empty ''H'' ?src (Num 7)))
          = [[Num 0, NaN]]"
    using a(1) e c
    by (intro array_eqI[of 1 2]) (auto simp: less_Suc_eq numeral_2_eq_2 is_array_def)
  moreover have "fst (set_value (\<lambda>n x. x) [[True, False]] Map.empty ''H'' ?src (Num 7))
          = Raise EngineError"
    using e by simp
  moreover have "snd (snd (set_value (\<lambda>n x. x) [[True, False]] ?vars ''H'' ?src (Num 7))) ''H''
          = Some (map (map (\<lambda>x. if isnan x then Num 7 else x))
              (fst (snd (set_value (\<lambda>n x. x) [[True, False]] ?vars ''H'' ?src (Num 7)))))"
    using f a(3) by simp
  moreover have "fst (snd (set_value (\<lambda>n x. x) [[True, False]] ?vars ''H'' ?src (Num 7)))
          = [[Num 0, NaN]]"
    using a(1,2) by (simp add: set_value_src zip_with_def m isnan_def)
  ultimately show ?thesis
    using a by (simp add: isnan_def)
qed

subsection \<open>Reading and writing the parameter file\<close>

text \<open>
  Claim C4 at a file of one keyword line, \<open>elevoff\<close>, as LISFLOOD-FP parameter files
  have them. The parser accepts the line and records the option \<open>elevoff\<close> without
  value. \<open>_write_section\<close> writes \<open>str(None)\<close> for it, the line \<open>elevoff None\<close>,
  and reading the written text gives \<open>elevoff\<close> the string value \<open>None\<close>: the record
  read back differs from the record written. (\<open>ConfigParser._write_section\<close>, which
  the method overrides, writes the bare name of an option without value.)
\<close>

theorem roundtrip_keyword_line:
  "read_file [] (readlines (''elevoff'' @ [CHR 0x0A])) =
     Inr \<lparr>cfg_defaults = [], cfg_sections = [(''general'', [(''elevoff'', None)])]\<rparr> \<and>
   write_config \<lparr>cfg_defaults = [], cfg_sections = [(''general'', [(''elevoff'', None)])]\<rparr> =
     ''elevoff None'' @ [CHR 0x0A, CHR 0x0A] \<and>
   read_file [] (readlines (''elevoff None'' @ [CHR 0x0A, CHR 0x0A])) =
     Inr \<lparr>cfg_defaults = [], cfg_sections = [(''general'', [(''elevoff'', Some ''None'')])]\<rparr>"
  by code_simp

text \<open>
  The claim C5 as the specification words it fails on the same line: it is neither
  blank nor a comment, it has one token, and parsing returns a record.
\<close>

theorem read_file_one_token_counterexample:
  "split_ws ''elevoff'' = [''elevoff''] \<and>
   read_file [] [''elevoff''] =
     Inr \<lparr>cfg_defaults = [], cfg_sections = [(''general'', [(''elevoff'', None)])]\<rparr>"
  by code_simp


lemma isspace_simps:
  "\<not> isspace CHR ''=''" "\<not> isspace CHR ''!''" "\<not> isspace CHR ''[''" "isspace CHR 0x0A"
  "isspace CHR '' ''"
  by (simp_all add: isspace_def whitespace_def)

lemma split_ws_tokens: "t \<in> set (split_ws s) \<Longrightarrow> t \<noteq> [] \<and> (\<forall>c \<in> set t. \<not> isspace c)"
proof (induction s rule: split_ws.induct)
  case (1 s)
  show ?case
  proof (cases "dropWhile isspace s")
    case Nil
    with "1.prems" show ?thesis by (simp add: split_ws.simps[of s])
  next
    case (Cons c cs)
    have c: "\<not> isspace c"
      using hd_dropWhile[of isspace s] Cons by simp
    from "1.prems" Cons have
      "t = takeWhile (\<lambda>x. \<not> isspace x) (c # cs) \<or>
       t \<in> set (split_ws (dropWhile (\<lambda>x. \<not> isspace x) (c # cs)))"
      by (simp add: split_ws.simps[of s])
    then show ?thesis
    proof
      assume t: "t = takeWhile (\<lambda>x. \<not> isspace x) (c # cs)"
      have "\<forall>x \<in> set t. \<not> isspace x"
        unfolding t using set_takeWhileD by fastforce
      moreover have "t \<noteq> []" unfolding t using c by simp
      ultimately show ?thesis by simp
    next
      assume "t \<in> set (split_ws (dropWhile (\<lambda>x. \<not> isspace x) (c # cs)))"
      then show ?thesis by (rule "1.IH"[OF Cons])
    qed
  qed
qed

lemma nospace_strip:
  assumes "\<forall>c \<in> set s. \<not> isspace c"
  shows "lstrip s = s" "rstrip s = s" "strip s = s" "takeWhile isspace s = []"
proof -
  show l: "lstrip s = s"
    using assms by (cases s) (simp_all add: lstrip_def)
  have "dropWhile isspace (rev s) = rev s"
    using assms by (cases "rev s") (auto simp: dropWhile_eq_self_iff)
  then show r: "rstrip s = s" by (simp add: rstrip_def)
  show "strip s = s" by (simp add: strip_def l r)
  show "takeWhile isspace s = []"
    using assms by (cases s) simp_all
qed

lemma inline_comment_none:
  assumes "\<forall>c \<in> set s. \<not> isspace c" "\<not> isspace p"
  shows "inline_comment_start (Some p) s = None"
  using assms by (induction s arbitrary: p) simp_all

lemma inline_comment_nospace:
  assumes "\<forall>c \<in> set s. \<not> isspace c"
  shows "inline_comment_start None s = (if s \<noteq> [] \<and> hd s = CHR ''!'' then Some 0 else None)"
  using assms by (cases s) (simp_all add: inline_comment_none)

lemma startswith_char: "startswith s [c] = (s \<noteq> [] \<and> hd s = c)"
  by (cases s) (simp_all add: startswith_def)

lemma comment_prefix_iff:
  "(\<exists>prefix \<in> set comment_prefixes. startswith s prefix) = (s \<noteq> [] \<and> hd s \<in> set ''!/#'')"
  by (auto simp: comment_prefixes_def startswith_char)

text \<open>The line that \<open>par2ini\<close> makes of a line with a first token \<open>k\<close>.\<close>

lemma par2ini_line:
  assumes "split_ws line = k # rest"
  shows "join ''='' (take 2 (split_ws line)) = (case rest of [] \<Rightarrow> k | v # _ \<Rightarrow> k @ ''='' @ v)"
    and "k \<noteq> []" and "\<forall>c \<in> set k. \<not> isspace c"
    and "\<forall>v \<in> set rest. v \<noteq> [] \<and> (\<forall>c \<in> set v. \<not> isspace c)"
proof -
  show "join ''='' (take 2 (split_ws line)) = (case rest of [] \<Rightarrow> k | v # _ \<Rightarrow> k @ ''='' @ v)"
    using assms by (cases rest) (simp_all add: numeral_2_eq_2)
  show "k \<noteq> []" "\<forall>c \<in> set k. \<not> isspace c"
    using split_ws_tokens[of k line] assms by simp_all
  show "\<forall>v \<in> set rest. v \<noteq> [] \<and> (\<forall>c \<in> set v. \<not> isspace c)"
    using split_ws_tokens[of _ line] assms by auto
qed

lemma par2ini_line_nospace:
  "\<forall>c \<in> set (join ''='' (take 2 (split_ws line))). \<not> isspace c"
proof (cases "split_ws line")
  case Nil
  then show ?thesis by simp
next
  case (Cons k rest)
  show ?thesis
    using par2ini_line[OF Cons]
    by (cases rest) (auto simp: isspace_simps)
qed

lemma sectcre_no_bracket: "s \<noteq> [] \<Longrightarrow> hd s \<noteq> CHR ''['' \<Longrightarrow> sectcre_match s = None"
  by (cases s) (simp_all add: sectcre_match_def)

lemma optcre_key_only:
  assumes "CHR ''='' \<notin> set k" "\<forall>c \<in> set k. \<not> isspace c"
  shows "optcre_match k = (k, None)"
proof -
  have k: "\<forall>c \<in> set k. c \<noteq> CHR ''=''"
    using assms(1) by auto
  have "takeWhile (\<lambda>c. c \<noteq> CHR ''='') k = k" "dropWhile (\<lambda>c. c \<noteq> CHR ''='') k = []"
    using k by simp_all
  then show ?thesis
    by (simp only: optcre_match_def nospace_strip[OF assms(2)] list.case)
qed

lemma optcre_key_value:
  assumes "CHR ''='' \<notin> set k" "\<forall>c \<in> set k. \<not> isspace c" "\<forall>c \<in> set v. \<not> isspace c"
  shows "optcre_match (k @ ''='' @ v) = (k, Some v)"
proof -
  have k: "\<forall>c \<in> set k. c \<noteq> CHR ''=''"
    using assms(1) by auto
  have "takeWhile (\<lambda>c. c \<noteq> CHR ''='') (k @ ''='' @ v) = k"
    "dropWhile (\<lambda>c. c \<noteq> CHR ''='') (k @ ''='' @ v) = CHR ''='' # v"
    using k by simp_all
  then show ?thesis
    by (simp only: optcre_match_def nospace_strip[OF assms(2)] nospace_strip[OF assms(3)]
        list.case)
qed

lemma update_new_key: "k \<notin> fst ` set al \<Longrightarrow> AList.update k v al = al @ [(k, v)]"
  by (induction al) auto

lemma update_keys_existing: "k \<in> fst ` set al \<Longrightarrow> fst ` set (AList.update k v al) = fst ` set al"
  by (induction al) auto

lemma entries_keys:
  "list_all2 (\<lambda>(k, pv) (k', ov). k = k' \<and> R pv ov) items es \<Longrightarrow> map fst items = map fst es"
  by (induction rule: list_all2_induct) auto

lemma entries_lookup:
  "list_all2 (\<lambda>(k, pv) (k', ov). k = k' \<and> R pv ov) items es \<Longrightarrow> k \<in> fst ` set items \<Longrightarrow>
   \<exists>pv ov. map_of items k = Some pv \<and> R pv ov"
  by (induction rule: list_all2_induct) auto

lemma entries_update:
  assumes "list_all2 (\<lambda>(k, pv) (k', ov). k = k' \<and> R pv ov) items es"
    and "map_of items k = Some pv" and "\<And>ov. R pv ov \<Longrightarrow> R pv' ov"
  shows "list_all2 (\<lambda>(k, pv) (k', ov). k = k' \<and> R pv ov) (AList.update k pv' items) es"
  using assms by (induction rule: list_all2_induct) auto

lemma read_value_of_append:
  "read_value_of (Lines ls) ov \<Longrightarrow> read_value_of (Lines (ls @ [[]])) ov"
proof (cases ov)
  case None
  assume "read_value_of (Lines ls) ov"
  with None show ?thesis by (simp add: read_value_of_def)
next
  case (Some v)
  assume "read_value_of (Lines ls) ov"
  with Some obtain n where n: "v \<noteq> []" "\<forall>c \<in> set v. \<not> isspace c" "ls = v # replicate n []"
    by (auto simp: read_value_of_def)
  have "ls @ [[]] = v # replicate (Suc n) []"
    unfolding n(3) by (simp add: replicate_append_same)
  then show ?thesis
    using Some n(1,2) unfolding read_value_of_def by (simp only: option.case) blast
qed

lemma strip_Nil: "strip [] = []"
  by (simp add: strip_def lstrip_def rstrip_def)

lemma read_line_blank:
  assumes "reading_general d st es"
  shows "\<exists>st'. read_line st [] = Inr st' \<and> reading_general d st' es"
proof -
  from assms obtain items where st:
    "rs_defaults st = d" "rs_sections st = [(''general'', items)]"
    "rs_cursect st = Some (AtSection ''general'')" "rs_sectname st = Some ''general''"
    "rs_indent_level st = 0" "rs_e st = []"
    "rs_optname st = None \<or> (\<exists>k \<in> fst ` set items. rs_optname st = Some k)"
    "set (rs_elements_added st) =
       insert (''general'', None) ((\<lambda>k. (''general'', Some k)) ` fst ` set items)"
    "list_all2 (\<lambda>(k, pv) (k', ov). k = k' \<and> read_value_of pv ov) items es"
    unfolding reading_general_def by (elim exE conjE) (rule that; assumption)
  have cs: "(\<exists>prefix \<in> set comment_prefixes. startswith [] prefix) = False"
    "strip [] = []"
    by (simp_all add: comment_prefix_iff strip_Nil)
  show ?thesis
  proof (cases "rs_optname st")
    case None
    then have "read_line st [] = Inr st"
      by (simp add: read_line_def cs st(3))
    then show ?thesis using assms by simp
  next
    case (Some k)
    with st(7) have k: "k \<in> fst ` set items" by auto
    obtain pv ov where pv: "map_of items k = Some pv" "read_value_of pv ov"
      using entries_lookup[OF st(9) k] by blast
    have get: "cursect_get st (AtSection ''general'') k = Some pv"
      by (simp add: cursect_get_def st(2) pv(1))
    show ?thesis
    proof (cases "k \<noteq> [] \<and> pv \<noteq> NoValue")
      case False
      then have "read_line st [] = Inr st"
        by (auto simp: read_line_def cs st(3) Some get)
      then show ?thesis using assms by simp
    next
      case True
      then obtain ls where ls: "pv = Lines ls"
        using pv(2) by (cases ov) (auto simp: read_value_of_def)
      let ?st' = "cursect_set st (AtSection ''general'') k (Lines (ls @ [[]]))"
      have r: "read_line st [] = Inr ?st'"
        using True by (simp add: read_line_def cs st(3) Some get cursect_append_def ls)
      have upd: "list_all2 (\<lambda>(k, pv) (k', ov). k = k' \<and> read_value_of pv ov)
                   (AList.update k (Lines (ls @ [[]])) items) es"
        using st(9) pv(1) unfolding ls
        by (rule entries_update) (rule read_value_of_append)
      have "reading_general d ?st' es"
        unfolding reading_general_def
        apply (rule exI[of _ "AList.update k (Lines (ls @ [[]])) items"])
        using st Some k upd
        by (simp add: cursect_set_def update_keys_existing)
      with r show ?thesis by blast
    qed
  qed
qed

lemma read_line_comment:
  assumes "split_ws line = k # rest" "hd k \<in> set ''!/#''"
  shows "read_line st (join ''='' (take 2 (split_ws line))) = Inr st"
proof -
  let ?pl = "join ''='' (take 2 (split_ws line))"
  note p = par2ini_line[OF assms(1)]
  have ne: "?pl \<noteq> []" and hd: "hd ?pl = hd k"
    using p(1,2) by (cases rest; simp)+
  have cs: "(\<exists>prefix \<in> set comment_prefixes. startswith (strip ?pl) prefix) = True"
    unfolding nospace_strip[OF par2ini_line_nospace] comment_prefix_iff
    using ne hd assms(2) by simp
  show ?thesis
    unfolding read_line_def cs by (simp add: strip_Nil)
qed

lemma read_line_keyed:
  assumes inv: "reading_general d st es"
    and toks: "split_ws line = k # rest"
    and k: "hd k \<notin> set ''!/#[''" "CHR ''='' \<notin> set k"
    and new: "k \<notin> fst ` set es"
  shows "\<exists>st'. read_line st (join ''='' (take 2 (split_ws line))) = Inr st' \<and>
           reading_general d st' (es @ [(k, par_value line)])"
proof -
  let ?pl = "join ''='' (take 2 (split_ws line))"
  from inv obtain items where st:
    "rs_defaults st = d" "rs_sections st = [(''general'', items)]"
    "rs_cursect st = Some (AtSection ''general'')" "rs_sectname st = Some ''general''"
    "rs_indent_level st = 0" "rs_e st = []"
    "rs_optname st = None \<or> (\<exists>k \<in> fst ` set items. rs_optname st = Some k)"
    "set (rs_elements_added st) =
       insert (''general'', None) ((\<lambda>k. (''general'', Some k)) ` fst ` set items)"
    "list_all2 (\<lambda>(k, pv) (k', ov). k = k' \<and> read_value_of pv ov) items es"
    unfolding reading_general_def by (elim exE conjE) (rule that; assumption)
  note p = par2ini_line[OF toks]
  note ns = nospace_strip[OF par2ini_line_nospace[of line]]
  have ne: "?pl \<noteq> []" and hd: "hd ?pl = hd k"
    using p(1,2) by (cases rest; simp)+
  have cs: "(\<exists>prefix \<in> set comment_prefixes. startswith ?pl prefix) = False"
    unfolding comment_prefix_iff using hd k(1) by simp
  have ic: "inline_comment_start None ?pl = None"
    unfolding inline_comment_nospace[OF par2ini_line_nospace] using hd k(1) by simp
  have sect: "sectcre_match ?pl = None"
    using ne hd k(1) by (intro sectcre_no_bracket) simp_all
  define pv where "pv = (case par_value line of None \<Rightarrow> NoValue | Some v \<Rightarrow> Lines [v])"
  have opt: "optcre_match ?pl = (k, par_value line)"
    and val: "\<forall>v. par_value line = Some v \<longrightarrow> v \<noteq> [] \<and> (\<forall>c \<in> set v. \<not> isspace c)"
  proof -
    show "optcre_match ?pl = (k, par_value line)"
    proof (cases rest)
      case Nil
      then show ?thesis
        using p(1) optcre_key_only[OF k(2) p(3)] toks by (simp add: par_value_def)
    next
      case (Cons v rest')
      then have "\<forall>c \<in> set v. \<not> isspace c" using p(4) by simp
      then show ?thesis
        using p(1) optcre_key_value[OF k(2) p(3), of v] toks Cons by (simp add: par_value_def)
    qed
    show "\<forall>v. par_value line = Some v \<longrightarrow> v \<noteq> [] \<and> (\<forall>c \<in> set v. \<not> isspace c)"
      using p(4) toks by (cases rest) (simp_all add: par_value_def)
  qed
  have keys: "fst ` set items = fst ` set es"
    using entries_keys[OF st(9)] by (metis set_map)
  have notin: "(''general'', Some k) \<notin> set (rs_elements_added st)"
    using new keys st(8) by auto
  have sv: "(case par_value line of None \<Rightarrow> NoValue | Some v \<Rightarrow> Lines [strip v]) = pv"
    unfolding pv_def using val by (cases "par_value line") (simp_all add: nospace_strip)
  let ?st' = "cursect_set
                (st\<lparr>rs_indent_level := 0,
                    rs_elements_added := (''general'', Some k) # rs_elements_added st,
                    rs_optname := Some k\<rparr>)
                (AtSection ''general'') k pv"
  have r: "read_line st ?pl = Inr ?st'"
    unfolding read_line_def ns cs
    using ne notin p(2)
    by (simp add: ic ns sect st(3,4,5) opt nospace_strip[OF p(3)] sv Let_def
        split: option.splits)
  have rv: "read_value_of pv (par_value line)"
    unfolding pv_def read_value_of_def using val
    by (cases "par_value line") (auto intro: exI[of _ 0])
  have all2: "list_all2 (\<lambda>(k, pv) (k', ov). k = k' \<and> read_value_of pv ov)
                (items @ [(k, pv)]) (es @ [(k, par_value line)])"
    using st(9) rv by (simp add: list_all2_appendI)
  have knew: "k \<notin> fst ` set items" using new keys by simp
  have "reading_general d ?st' (es @ [(k, par_value line)])"
    unfolding reading_general_def
    apply (rule exI[of _ "items @ [(k, pv)]"])
    using st all2 knew
    by (auto simp: cursect_set_def update_new_key)
  with r show ?thesis by blast
qed

lemma read_lines_general:
  assumes "reading_general d st es"
    and "\<forall>line \<in> set f. par_blank line \<or> par_comment line \<or> par_keyed line"
    and "distinct (map fst es @ map par_key (filter (\<lambda>l. \<not> par_blank l \<and> \<not> par_comment l) f))"
  shows "\<exists>st'. read_lines st (map (\<lambda>line. join ''='' (take 2 (split_ws line))) f) = Inr st' \<and>
           reading_general d st'
             (es @ map (\<lambda>l. (par_key l, par_value l))
                     (filter (\<lambda>l. \<not> par_blank l \<and> \<not> par_comment l) f))"
  using assms
proof (induction f arbitrary: st es)
  case Nil
  then show ?case by simp
next
  case (Cons line f)
  let ?pl = "join ''='' (take 2 (split_ws line))"
  let ?data = "\<lambda>l. \<not> par_blank l \<and> \<not> par_comment l"
  consider (blank) "par_blank line"
    | (comment) "\<not> par_blank line" "par_comment line"
    | (keyed) "\<not> par_blank line" "\<not> par_comment line" "par_keyed line"
    using Cons.prems(2) by auto
  then show ?case
  proof cases
    case blank
    then have pl: "?pl = []" by (simp add: par_blank_def)
    obtain st1 where st1: "read_line st [] = Inr st1" "reading_general d st1 es"
      using read_line_blank[OF Cons.prems(1)] by blast
    have "\<exists>st'. read_lines st1 (map (\<lambda>line. join ''='' (take 2 (split_ws line))) f) = Inr st' \<and>
           reading_general d st' (es @ map (\<lambda>l. (par_key l, par_value l)) (filter ?data f))"
      using Cons.prems(2,3) blank by (intro Cons.IH[OF st1(2)]) simp_all
    then show ?thesis
      using st1(1) blank by (simp add: pl)
  next
    case comment
    then obtain k rest where toks: "split_ws line = k # rest" "hd k \<in> set ''!/#''"
      by (auto simp: par_comment_def split: list.splits)
    have r: "read_line st ?pl = Inr st"
      using toks by (rule read_line_comment)
    have "\<exists>st'. read_lines st (map (\<lambda>line. join ''='' (take 2 (split_ws line))) f) = Inr st' \<and>
           reading_general d st' (es @ map (\<lambda>l. (par_key l, par_value l)) (filter ?data f))"
      using Cons.prems(2,3) comment by (intro Cons.IH[OF Cons.prems(1)]) simp_all
    then show ?thesis
      using r comment by simp
  next
    case keyed
    then obtain k rest where toks: "split_ws line = k # rest"
      and k: "hd k \<notin> set ''!/#[''" "CHR ''='' \<notin> set k"
      by (auto simp: par_keyed_def split: list.splits)
    have key: "par_key line = k" using toks by (simp add: par_key_def)
    have new: "k \<notin> fst ` set es"
      using Cons.prems(3) keyed key by auto
    obtain st1 where st1: "read_line st ?pl = Inr st1"
      "reading_general d st1 (es @ [(k, par_value line)])"
      using read_line_keyed[OF Cons.prems(1) toks k new] by blast
    have "\<exists>st'. read_lines st1 (map (\<lambda>line. join ''='' (take 2 (split_ws line))) f) = Inr st' \<and>
           reading_general d st'
             ((es @ [(k, par_value line)]) @
              map (\<lambda>l. (par_key l, par_value l)) (filter ?data f))"
      using Cons.prems(2,3) keyed key by (intro Cons.IH[OF st1(2)]) simp_all
    then show ?thesis
      using st1(1) keyed key by simp
  qed
qed

lemma join_value_read:
  assumes "read_value_of pv ov"
  shows "join_value pv = ov"
proof (cases ov)
  case None
  with assms show ?thesis by (simp add: read_value_of_def join_value_def)
next
  case (Some v)
  with assms obtain n where n: "v \<noteq> []" "\<forall>c \<in> set v. \<not> isspace c" "pv = Lines (v # replicate n [])"
    by (auto simp: read_value_of_def)
  have j: "join [CHR 0x0A] (v # replicate n []) = v @ replicate n (CHR 0x0A)"
    by (induction n arbitrary: v) (simp_all add: replicate_append_same)
  have "dropWhile isspace (rev (v @ replicate n (CHR 0x0A))) = rev v"
    using n(1,2) by (cases "rev v") (auto simp: dropWhile_append3 isspace_simps dropWhile_append2)
  then have "rstrip (v @ replicate n (CHR 0x0A)) = v"
    by (simp add: rstrip_def)
  then show ?thesis
    using Some by (simp add: n(3) join_value_def j)
qed

lemma join_entries:
  "list_all2 (\<lambda>(k, pv) (k', ov). k = k' \<and> read_value_of pv ov) items es \<Longrightarrow>
   map (\<lambda>(k, v). (k, join_value v)) items = es"
  by (induction rule: list_all2_induct) (auto simp: join_value_read)

lemma read_header:
  "read_line \<lparr>rs_defaults = d, rs_sections = [], rs_cursect = None, rs_sectname = None,
              rs_optname = None, rs_indent_level = 0, rs_elements_added = [], rs_e = []\<rparr>
     (''[general]'' @ [CHR 0x0A]) =
   Inr \<lparr>rs_defaults = d, rs_sections = [(''general'', [])],
        rs_cursect = Some (AtSection ''general''), rs_sectname = Some ''general'',
        rs_optname = None, rs_indent_level = 0,
        rs_elements_added = [(''general'', None)], rs_e = []\<rparr>"
  by (simp add: read_line_def comment_prefixes_def startswith_def strip_def lstrip_def rstrip_def
      isspace_def whitespace_def sectcre_match_def default_section_def)

text \<open>
  Claim C5, as the code has it. A line with a single token is not rejected: the parser
  is built with \<open>allow_no_value=True\<close>. For every file whose lines are blank lines,
  comment lines and keyed lines with pairwise distinct keys, read with any defaults,
  parsing succeeds; the record holds the defaults and one section, \<open>general\<close>, that
  maps the key of every keyed line, in the order of the file, to the second token of
  the line, or to no value (\<open>None\<close>) when the line has one token only. Further
  tokens are dropped.
\<close>

theorem read_file_keyed_lines:
  assumes "\<forall>line \<in> set f. par_blank line \<or> par_comment line \<or> par_keyed line"
    and "distinct (map par_key (filter (\<lambda>l. \<not> par_blank l \<and> \<not> par_comment l) f))"
  shows "read_file defaults f =
           Inr \<lparr>cfg_defaults = map (\<lambda>(k, v). (k, Some v)) defaults,
                cfg_sections =
                  [(''general'',
                    map (\<lambda>l. (par_key l, par_value l))
                      (filter (\<lambda>l. \<not> par_blank l \<and> \<not> par_comment l) f))]\<rparr>"
proof -
  define d where "d = map (\<lambda>(k, v). (k, Str v)) defaults"
  define st0 where
    "st0 = \<lparr>rs_defaults = d, rs_sections = [(''general'', [])],
            rs_cursect = Some (AtSection ''general''), rs_sectname = Some ''general'',
            rs_optname = None, rs_indent_level = 0,
            rs_elements_added = [(''general'', None)], rs_e = []\<rparr>"
  let ?es = "map (\<lambda>l. (par_key l, par_value l)) (filter (\<lambda>l. \<not> par_blank l \<and> \<not> par_comment l) f)"
  have inv0: "reading_general d st0 []"
    by (simp add: reading_general_def st0_def)
  obtain st' where st': "read_lines st0 (map (\<lambda>line. join ''='' (take 2 (split_ws line))) f) = Inr st'"
    "reading_general d st' ([] @ ?es)"
    using read_lines_general[OF inv0 assms(1)] assms(2) by auto
  from st'(2) obtain items where items:
    "rs_defaults st' = d" "rs_sections st' = [(''general'', items)]" "rs_e st' = []"
    "list_all2 (\<lambda>(k, pv) (k', ov). k = k' \<and> read_value_of pv ov) items ?es"
    unfolding reading_general_def by auto
  have jd: "map (\<lambda>(k, v). (k, join_value v)) d = map (\<lambda>(k, v). (k, Some v)) defaults"
    by (simp add: d_def join_value_def split_def)
  have "join_multiline_values st' =
          \<lparr>cfg_defaults = map (\<lambda>(k, v). (k, Some v)) defaults, cfg_sections = [(''general'', ?es)]\<rparr>"
    by (simp add: join_multiline_values_def items(1,2) jd join_entries[OF items(4)])
  then show ?thesis
    using st'(1) items(3) read_header[of d]
    by (simp add: read_file_def read_ini_def par2ini_def d_def[symmetric] st0_def[symmetric])
qed

theorem read_file_keyed_lines_witness:
  "par_comment ''# water depths'' \<and> par_keyed ''DEMfile   dem.asc  extra'' \<and> par_blank [] \<and>
   par_keyed ''elevoff'' \<and> split_ws ''elevoff'' = [''elevoff''] \<and>
   read_file [(''refdate'', ''2000-01-01'')]
     [''# water depths'', ''DEMfile   dem.asc  extra'', [], ''elevoff''] =
     Inr \<lparr>cfg_defaults = [(''refdate'', Some ''2000-01-01'')],
          cfg_sections = [(''general'', [(''DEMfile'', Some ''dem.asc''), (''elevoff'', None)])]\<rparr>"
proof -
  let ?f = "[''# water depths'', ''DEMfile   dem.asc  extra'', [], ''elevoff'']"
  have h1: "\<forall>line \<in> set ?f. par_blank line \<or> par_comment line \<or> par_keyed line"
    by code_simp
  have h2: "distinct (map par_key (filter (\<lambda>l. \<not> par_blank l \<and> \<not> par_comment l) ?f))"
    by code_simp
  have e: "map (\<lambda>l. (par_key l, par_value l)) (filter (\<lambda>l. \<not> par_blank l \<and> \<not> par_comment l) ?f) =
             [(''DEMfile'', Some ''dem.asc''), (''elevoff'', None)]"
    by code_simp
  have t: "split_ws ''elevoff'' = [''elevoff'']"
    by code_simp
  have c: "par_comment ''# water depths''" "par_keyed ''DEMfile   dem.asc  extra''"
    "par_blank []" "par_keyed ''elevoff''"
    by code_simp+
  show ?thesis
    using c t read_file_keyed_lines[OF h1 h2, of "[(''refdate'', ''2000-01-01'')]"]
    unfolding e by simp
qed


subsection \<open>Attribute names\<close>

lemma split_on_hd: "split_on c s \<noteq> [] \<and> hd (split_on c s) = takeWhile (\<lambda>x. x \<noteq> c) s"
  by (induction s) (auto split: list.splits)

lemma split_on_prefix: "c \<notin> set p \<Longrightarrow> split_on c (p @ c # r) = p # split_on c r"
  by (induction p) auto

lemma split_on_second:
  assumes "c \<notin> set p"
  shows "split_on c (p @ c # r) ! 1 = takeWhile (\<lambda>x. x \<noteq> c) r"
proof -
  have "split_on c r \<noteq> []" "hd (split_on c r) = takeWhile (\<lambda>x. x \<noteq> c) r"
    using split_on_hd[of c r] by simp_all
  then show ?thesis
    by (simp add: split_on_prefix[OF assms] hd_conv_nth[symmetric])
qed

lemma attribute_key_prefixed:
  assumes "CHR '':'' \<notin> set p"
  shows "attribute_key (p @ CHR '':'' # r) = ''general:'' @ takeWhile (\<lambda>c. c \<noteq> CHR '':'') r"
  using split_on_second[OF assms, of r] by (simp add: attribute_key_def)

text \<open>
  Claim C6, as the code has it. A name without delimiter is prefixed with
  \<open>general:\<close>. Of a name with a delimiter the code keeps the piece between the first
  delimiter and the second (the whole rest when there is no second) and prefixes
  that; so two names that differ only in the prefix before the first delimiter reach
  the same attribute, in \<open>get_attribute_value\<close> and in \<open>set_attribute_value\<close>.
\<close>

theorem attribute_name_normalised:
  "(CHR '':'' \<notin> set name \<longrightarrow> attribute_key name = ''general:'' @ name) \<and>
   (CHR '':'' \<notin> set p \<longrightarrow>
      attribute_key (p @ '':'' @ r) = ''general:'' @ takeWhile (\<lambda>c. c \<noteq> CHR '':'') r) \<and>
   (CHR '':'' \<notin> set p \<and> CHR '':'' \<notin> set q \<longrightarrow>
      get_attribute_value self (p @ '':'' @ r) = get_attribute_value self (q @ '':'' @ r) \<and>
      set_attribute_value self (p @ '':'' @ r) v = set_attribute_value self (q @ '':'' @ r) v) \<and>
   get_attribute_value self name =
     (case lfp_config self of
        None \<Rightarrow> Raise NotConfiguredError
      | Some cfg \<Rightarrow> configget cfg (attribute_key name))"
proof -
  have a: "CHR '':'' \<notin> set name \<longrightarrow> attribute_key name = ''general:'' @ name"
    by (simp add: attribute_key_def)
  have b: "attribute_key (p @ '':'' @ r) = ''general:'' @ takeWhile (\<lambda>c. c \<noteq> CHR '':'') r"
    if "CHR '':'' \<notin> set p" for p
    using attribute_key_prefixed[OF that, of r] by simp
  have c: "get_attribute_value self (p @ '':'' @ r) = get_attribute_value self (q @ '':'' @ r) \<and>
      set_attribute_value self (p @ '':'' @ r) v = set_attribute_value self (q @ '':'' @ r) v"
    if "CHR '':'' \<notin> set p \<and> CHR '':'' \<notin> set q"
  proof -
    have "attribute_key (p @ '':'' @ r) = attribute_key (q @ '':'' @ r)"
      using that b[of p] b[of q] by simp
    then show ?thesis
      unfolding get_attribute_value_def set_attribute_value_def by (simp only:)
  qed
  have d: "get_attribute_value self name =
     (case lfp_config self of
        None \<Rightarrow> Raise NotConfiguredError
      | Some cfg \<Rightarrow> configget cfg (attribute_key name))"
    by (simp only: get_attribute_value_def)
  show ?thesis
    using a b[of p] c d by blast
qed

theorem attribute_name_normalised_witness:
  "CHR '':'' \<notin> set ''refdate'' \<and> CHR '':'' \<notin> set ''model'' \<and> CHR '':'' \<notin> set ''general'' \<and>
   attribute_key ''refdate'' = ''general:refdate'' \<and>
   attribute_key ''model:refdate'' = ''general:refdate'' \<and>
   get_attribute_value
     \<lparr>lfp_bmi = (), lfp_initialized = False,
      lfp_config = Some \<lparr>cfg_defaults = [(''refdate'', Some ''2000-01-01'')],
                         cfg_sections = [(''general'', [])]\<rparr>,
      lfp_dt = 0, lfp_startTime = 0, lfp_endTime = 0, lfp_t = 0, lfp_log = []\<rparr>
     ''model:refdate'' =
   get_attribute_value
     \<lparr>lfp_bmi = (), lfp_initialized = False,
      lfp_config = Some \<lparr>cfg_defaults = [(''refdate'', Some ''2000-01-01'')],
                         cfg_sections = [(''general'', [])]\<rparr>,
      lfp_dt = 0, lfp_startTime = 0, lfp_endTime = 0, lfp_t = 0, lfp_log = []\<rparr>
     ''general:refdate''"
proof -
  have c: "CHR '':'' \<notin> set ''refdate''" "CHR '':'' \<notin> set ''model''" "CHR '':'' \<notin> set ''general''"
    by simp_all
  have t: "takeWhile (\<lambda>c. c \<noteq> CHR '':'') ''refdate'' = ''refdate''"
    by simp
  show ?thesis
    using c t attribute_name_normalised[of "''refdate''" "''model''" "''refdate''" "''general''"]
    by (metis append_Cons append_Nil)
qed

text \<open>
  The claim as the specification words it keeps the whole portion after the first
  delimiter. Of \<open>a:b:c\<close> that portion is \<open>b:c\<close>; the code keeps \<open>b\<close>.
\<close>

theorem attribute_key_counterexample:
  "attribute_key ''a:b:c'' = ''general:b'' \<and> attribute_key ''a:b:c'' \<noteq> ''general:'' @ ''b:c''"
  by (simp add: attribute_key_def)

subsection \<open>Stepping the engine\<close>

text \<open>
  Claim C3. When the current time of the adapter has reached its end time, \<open>update\<close>
  raises its exception at once, for every step duration asked for: the adapter and the
  engine state in it are returned as they were, so no native step was taken and nothing
  was logged.
\<close>

theorem update_at_end_time:
  assumes "lfp_endTime self \<le> lfp_t self"
  shows "update ext dt self = Some (Raise EndTimeReached, self)"
  using assms by (simp add: update_def)

theorem update_at_end_time_witness:
  "lfp_endTime \<lparr>lfp_bmi = (100::int), lfp_initialized = True, lfp_config = None,
                lfp_dt = 30000000, lfp_startTime = 0, lfp_endTime = 100000000,
                lfp_t = 100000000, lfp_log = []\<rparr>
     \<le> lfp_t \<lparr>lfp_bmi = (100::int), lfp_initialized = True, lfp_config = None,
                lfp_dt = 30000000, lfp_startTime = 0, lfp_endTime = 100000000,
                lfp_t = 100000000, lfp_log = []\<rparr> \<and>
   update \<lparr>bmi_update = (\<lambda>e. e + 30), bmi_get_start_time = (\<lambda>e. 0),
            bmi_get_current_time = (\<lambda>e. of_int e), bmi_get_end_time = (\<lambda>e. 100),
            bmi_get_time_step = (\<lambda>e. 30), strptime = (\<lambda>s. None)\<rparr>
     None
     \<lparr>lfp_bmi = (100::int), lfp_initialized = True, lfp_config = None,
      lfp_dt = 30000000, lfp_startTime = 0, lfp_endTime = 100000000,
      lfp_t = 100000000, lfp_log = []\<rparr> =
   Some (Raise EndTimeReached,
     \<lparr>lfp_bmi = 100, lfp_initialized = True, lfp_config = None,
      lfp_dt = 30000000, lfp_startTime = 0, lfp_endTime = 100000000,
      lfp_t = 100000000, lfp_log = []\<rparr>)"
proof -
  let ?s = "\<lparr>lfp_bmi = (100::int), lfp_initialized = True, lfp_config = None,
             lfp_dt = 30000000, lfp_startTime = 0, lfp_endTime = 100000000,
             lfp_t = 100000000, lfp_log = []\<rparr>"
  have h: "lfp_endTime ?s \<le> lfp_t ?s" by simp
  show ?thesis
    using h update_at_end_time[OF h] by blast
qed



lemma get_current_time_initialized:
  "lfp_initialized self \<Longrightarrow>
   get_current_time ext self =
     (Ok (lfp_startTime self + timedelta_seconds (bmi_get_current_time ext (lfp_bmi self))), self)"
  by (simp add: get_current_time_def)

lemma native_step_fields:
  "lfp_initialized (native_step ext self) = lfp_initialized self"
  "lfp_startTime (native_step ext self) = lfp_startTime self"
  "lfp_endTime (native_step ext self) = lfp_endTime self"
  "lfp_dt (native_step ext self) = lfp_dt self"
  "lfp_config (native_step ext self) = lfp_config self"
  "lfp_log (native_step ext self) = lfp_log self"
  "lfp_bmi (native_step ext self) = bmi_update ext (lfp_bmi self)"
  by (simp_all add: native_step_def)

lemma native_steps_fields:
  "lfp_initialized ((native_step ext ^^ n) self) = lfp_initialized self"
  "lfp_startTime ((native_step ext ^^ n) self) = lfp_startTime self"
  "lfp_endTime ((native_step ext ^^ n) self) = lfp_endTime self"
  "lfp_dt ((native_step ext ^^ n) self) = lfp_dt self"
  "lfp_config ((native_step ext ^^ n) self) = lfp_config self"
  "lfp_log ((native_step ext ^^ n) self) = lfp_log self"
  "lfp_bmi ((native_step ext ^^ n) self) = (bmi_update ext ^^ n) (lfp_bmi self)"
  by (induction n) (simp_all add: native_step_fields)

lemma update_loop_unfold:
  assumes "lfp_initialized self"
  shows "update_loop ext t_next self i =
           (if lfp_t self < t_next then update_loop ext t_next (native_step ext self) (i + 1)
            else Some (Ok (), self, i))"
  using assms
  by (subst update_loop.simps) (simp add: get_current_time_initialized native_step_def Let_def)

lemma update_loop_steps:
  assumes "lfp_initialized self"
    and "\<forall>k<n. lfp_t ((native_step ext ^^ k) self) < t_next"
    and "t_next \<le> lfp_t ((native_step ext ^^ n) self)"
  shows "update_loop ext t_next self i = Some (Ok (), (native_step ext ^^ n) self, i + n)"
  using assms
proof (induction n arbitrary: self i)
  case 0
  then show ?case by (simp add: update_loop_unfold)
next
  case (Suc n)
  have lt: "lfp_t self < t_next" using Suc.prems(2) by auto
  have "update_loop ext t_next (native_step ext self) (i + 1) =
          Some (Ok (), (native_step ext ^^ n) (native_step ext self), i + 1 + n)"
  proof (rule Suc.IH)
    show "lfp_initialized (native_step ext self)"
      using Suc.prems(1) by (simp add: native_step_fields)
    show "\<forall>k<n. lfp_t ((native_step ext ^^ k) (native_step ext self)) < t_next"
      using Suc.prems(2) by (auto simp: funpow_swap1 dest: spec[of _ "Suc _"])
    show "t_next \<le> lfp_t ((native_step ext ^^ n) (native_step ext self))"
      using Suc.prems(3) by (simp add: funpow_swap1)
  qed
  then show ?case
    using lt Suc.prems(1) by (simp add: update_loop_unfold[of self] funpow_swap1)
qed

lemma update_loop_result_aux:
  assumes "update_loop ext t_next self i = Some y"
  shows "lfp_initialized self \<longrightarrow>
           (\<exists>n. y = (Ok (), (native_step ext ^^ n) self, i + n) \<and>
                t_next \<le> lfp_t ((native_step ext ^^ n) self) \<and>
                (\<forall>k<n. lfp_t ((native_step ext ^^ k) self) < t_next))"
  using assms
proof (rule update_loop.raw_induct
    [where P = "\<lambda>ext t_next self i y. lfp_initialized self \<longrightarrow>
           (\<exists>n. y = (Ok (), (native_step ext ^^ n) self, i + n) \<and>
                t_next \<le> lfp_t ((native_step ext ^^ n) self) \<and>
                (\<forall>k<n. lfp_t ((native_step ext ^^ k) self) < t_next))", rotated])
  fix loop :: "'a externals \<Rightarrow> int \<Rightarrow> 'a lfp \<Rightarrow> nat \<Rightarrow> (unit outcome \<times> 'a lfp \<times> nat) option"
  fix ext t_next self i y
  assume IH: "\<And>ext t_next self i y. loop ext t_next self i = Some y \<Longrightarrow>
        lfp_initialized self \<longrightarrow>
           (\<exists>n. y = (Ok (), (native_step ext ^^ n) self, i + n) \<and>
                t_next \<le> lfp_t ((native_step ext ^^ n) self) \<and>
                (\<forall>k<n. lfp_t ((native_step ext ^^ k) self) < t_next))"
  assume body: "(if lfp_t self < t_next then
        (let self = self\<lparr>lfp_bmi := bmi_update ext (lfp_bmi self)\<rparr>
         in case get_current_time ext self of
              (Raise err, self) \<Rightarrow> Some (Raise err, self, i)
            | (Ok now, self) \<Rightarrow> loop ext t_next (self\<lparr>lfp_t := now\<rparr>) (i + 1))
      else Some (Ok (), self, i)) = Some y"
  show "lfp_initialized self \<longrightarrow>
           (\<exists>n. y = (Ok (), (native_step ext ^^ n) self, i + n) \<and>
                t_next \<le> lfp_t ((native_step ext ^^ n) self) \<and>
                (\<forall>k<n. lfp_t ((native_step ext ^^ k) self) < t_next))"
  proof
    assume init: "lfp_initialized self"
    show "\<exists>n. y = (Ok (), (native_step ext ^^ n) self, i + n) \<and>
                t_next \<le> lfp_t ((native_step ext ^^ n) self) \<and>
                (\<forall>k<n. lfp_t ((native_step ext ^^ k) self) < t_next)"
    proof (cases "lfp_t self < t_next")
      case False
      with body have "y = (Ok (), self, i)" by simp
      with False show ?thesis by (intro exI[of _ 0]) simp
    next
      case True
      have gct: "get_current_time ext (self\<lparr>lfp_bmi := bmi_update ext (lfp_bmi self)\<rparr>) =
             (Ok (lfp_t (native_step ext self)), self\<lparr>lfp_bmi := bmi_update ext (lfp_bmi self)\<rparr>)"
        using init by (simp add: get_current_time_def native_step_def)
      have "loop ext t_next (native_step ext self) (i + 1) = Some y"
        using body True unfolding Let_def gct by (simp add: native_step_def)
      moreover have "lfp_initialized (native_step ext self)"
        using init by (simp add: native_step_fields)
      ultimately obtain n where n:
        "y = (Ok (), (native_step ext ^^ n) (native_step ext self), i + 1 + n)"
        "t_next \<le> lfp_t ((native_step ext ^^ n) (native_step ext self))"
        "\<forall>k<n. lfp_t ((native_step ext ^^ k) (native_step ext self)) < t_next"
        using IH by blast
      have "\<forall>k<Suc n. lfp_t ((native_step ext ^^ k) self) < t_next"
      proof (intro allI impI)
        fix k assume "k < Suc n"
        then show "lfp_t ((native_step ext ^^ k) self) < t_next"
          using True n(3) by (cases k) (simp_all add: funpow_swap1)
      qed
      then show ?thesis
        using n(1,2) by (intro exI[of _ "Suc n"]) (simp add: funpow_swap1)
    qed
  qed
qed

text \<open>
  Claim C2. On an initialized adapter whose current time is before its end time,
  \<open>update\<close> takes as step the duration the caller gives, when it gives one that
  differs from the seconds of the last known time step \<open>_dt\<close>, and \<open>_dt\<close> otherwise.
  The target is the current time read from the engine plus that step. The loop tests
  \<open>_t\<close>, the time the adapter holds, takes a native step of the engine and reads
  \<open>_t\<close> from the engine again: if \<open>n\<close> is the first number of turns after which
  \<open>_t\<close> has reached the target, \<open>update\<close> returns after exactly \<open>n\<close> native steps
  and logs \<open>n\<close>; if there is no such number it does not return.
\<close>

theorem update_steps_to_target:
  assumes "lfp_initialized self" and "lfp_t self < lfp_endTime self"
    and "step = (case dt of
                   None \<Rightarrow> lfp_dt self
                 | Some d \<Rightarrow> if d \<noteq> total_seconds (lfp_dt self) then timedelta_seconds d
                             else lfp_dt self)"
    and "target = lfp_startTime self +
                  timedelta_seconds (bmi_get_current_time ext (lfp_bmi self)) + step"
  shows "(\<forall>n. (\<forall>k<n. lfp_t ((native_step ext ^^ k) self) < target) \<and>
              target \<le> lfp_t ((native_step ext ^^ n) self) \<longrightarrow>
              update ext dt self =
                Some (Ok (), ((native_step ext ^^ n) self)
                        \<lparr>lfp_log := lfp_log self @ [(lfp_t ((native_step ext ^^ n) self), n)]\<rparr>)) \<and>
         ((\<forall>k. lfp_t ((native_step ext ^^ k) self) < target) \<longrightarrow> update ext dt self = None)"
proof -
  have u: "update ext dt self =
      (case update_loop ext target self 0 of
         None \<Rightarrow> None
       | Some (Raise err, self, i) \<Rightarrow> Some (Raise err, self)
       | Some (Ok u, self, i) \<Rightarrow> Some (Ok (), self\<lparr>lfp_log := lfp_log self @ [(lfp_t self, i)]\<rparr>))"
    using assms(2)
    by (simp add: update_def get_current_time_initialized[OF assms(1)] assms(3,4) Let_def)
  have a: "update ext dt self =
             Some (Ok (), ((native_step ext ^^ n) self)
                     \<lparr>lfp_log := lfp_log self @ [(lfp_t ((native_step ext ^^ n) self), n)]\<rparr>)"
    if "(\<forall>k<n. lfp_t ((native_step ext ^^ k) self) < target) \<and>
        target \<le> lfp_t ((native_step ext ^^ n) self)" for n
    using update_loop_steps[OF assms(1), of n ext target 0] that
    by (simp add: u native_steps_fields)
  have b: "update ext dt self = None" if never: "\<forall>k. lfp_t ((native_step ext ^^ k) self) < target"
  proof (cases "update_loop ext target self 0")
    case None
    then show ?thesis by (simp add: u)
  next
    case (Some y)
    then obtain n where "target \<le> lfp_t ((native_step ext ^^ n) self)"
      using update_loop_result_aux[of ext target self 0 y] assms(1) by blast
    with never have False by (simp add: not_le[symmetric])
    then show ?thesis ..
  qed
  show ?thesis using a b by blast
qed

theorem update_steps_to_target_witness:
  "update \<lparr>bmi_update = (\<lambda>e. e + 30), bmi_get_start_time = (\<lambda>e. 0),
            bmi_get_current_time = (\<lambda>e. of_int e), bmi_get_end_time = (\<lambda>e. 100),
            bmi_get_time_step = (\<lambda>e. 30), strptime = (\<lambda>s. None)\<rparr>
     (Some 45)
     \<lparr>lfp_bmi = (0::int), lfp_initialized = True, lfp_config = None,
      lfp_dt = 30000000, lfp_startTime = 0, lfp_endTime = 100000000,
      lfp_t = 0, lfp_log = []\<rparr> =
   Some (Ok (),
     \<lparr>lfp_bmi = 60, lfp_initialized = True, lfp_config = None,
      lfp_dt = 30000000, lfp_startTime = 0, lfp_endTime = 100000000,
      lfp_t = 60000000, lfp_log = [(60000000, 2)]\<rparr>)"
proof -
  let ?ext = "\<lparr>bmi_update = (\<lambda>e. e + 30), bmi_get_start_time = (\<lambda>e. 0),
            bmi_get_current_time = (\<lambda>e. of_int e), bmi_get_end_time = (\<lambda>e. 100),
            bmi_get_time_step = (\<lambda>e. 30), strptime = (\<lambda>s. None)\<rparr> :: int externals"
  let ?s = "\<lparr>lfp_bmi = (0::int), lfp_initialized = True, lfp_config = None,
      lfp_dt = 30000000, lfp_startTime = 0, lfp_endTime = 100000000,
      lfp_t = 0, lfp_log = []\<rparr>"
  have td: "timedelta_seconds 0 = 0" "timedelta_seconds 30 = 30000000"
    "timedelta_seconds 45 = 45000000" "timedelta_seconds 60 = 60000000"
    by (simp_all add: timedelta_seconds_def round_half_even_def)
  have s1: "native_step ?ext ?s = ?s\<lparr>lfp_bmi := 30, lfp_t := 30000000\<rparr>"
    by (simp add: native_step_def td)
  have s2: "native_step ?ext (?s\<lparr>lfp_bmi := 30, lfp_t := 30000000\<rparr>) =
              ?s\<lparr>lfp_bmi := 60, lfp_t := 60000000\<rparr>"
    by (simp add: native_step_def td)
  have p: "(native_step ?ext ^^ 0) ?s = ?s"
    "(native_step ?ext ^^ Suc 0) ?s = ?s\<lparr>lfp_bmi := 30, lfp_t := 30000000\<rparr>"
    "(native_step ?ext ^^ Suc (Suc 0)) ?s = ?s\<lparr>lfp_bmi := 60, lfp_t := 60000000\<rparr>"
    using s1 s2 by simp_all
  have h1: "lfp_initialized ?s" and h2: "lfp_t ?s < lfp_endTime ?s"
    by simp_all
  have h3: "(45000000::int) = (case Some (45::rat) of
                   None \<Rightarrow> lfp_dt ?s
                 | Some d \<Rightarrow> if d \<noteq> total_seconds (lfp_dt ?s) then timedelta_seconds d
                             else lfp_dt ?s)"
    by (simp add: total_seconds_def td)
  have h4: "(45000000::int) = lfp_startTime ?s +
                  timedelta_seconds (bmi_get_current_time ?ext (lfp_bmi ?s)) + 45000000"
    by (simp add: td)
  have h5: "(\<forall>k<Suc (Suc 0). lfp_t ((native_step ?ext ^^ k) ?s) < 45000000) \<and>
              45000000 \<le> lfp_t ((native_step ?ext ^^ Suc (Suc 0)) ?s)"
    unfolding p(3) using p(1,2) by (simp add: less_Suc_eq)
  have "update ?ext (Some 45) ?s =
          Some (Ok (), ((native_step ?ext ^^ Suc (Suc 0)) ?s)
             \<lparr>lfp_log := lfp_log ?s @ [(lfp_t ((native_step ?ext ^^ Suc (Suc 0)) ?s), Suc (Suc 0))]\<rparr>)"
    using update_steps_to_target[OF h1 h2 h3 h4] h5 by blast
  then show ?thesis
    unfolding p(3) by simp
qed


subsection \<open>The bounds of the current time\<close>

lemma native_steps_t:
  "lfp_t ((native_step ext ^^ Suc n) self) =
     lfp_startTime self +
     timedelta_seconds (bmi_get_current_time ext ((bmi_update ext ^^ Suc n) (lfp_bmi self)))"
  by (simp add: native_step_def native_steps_fields)

text \<open>
  What a call leaves of an initialized adapter: it stays initialized with its start and
  end time, its engine has taken some number of native steps, and its current time is
  the one it had or the start time plus the engine's time after some of those steps.
\<close>

lemma update_result:
  assumes "update ext dt self = Some (r, self')" and "lfp_initialized self"
  shows "lfp_initialized self' \<and> lfp_startTime self' = lfp_startTime self \<and>
         lfp_endTime self' = lfp_endTime self \<and>
         (\<exists>n. lfp_bmi self' = (bmi_update ext ^^ n) (lfp_bmi self)) \<and>
         (lfp_t self' = lfp_t self \<or>
          (\<exists>n. lfp_t self' = lfp_startTime self +
                 timedelta_seconds (bmi_get_current_time ext ((bmi_update ext ^^ n) (lfp_bmi self)))))"
proof (cases "lfp_endTime self \<le> lfp_t self")
  case True
  with assms(1) have "self' = self" by (simp add: update_def)
  then show ?thesis using assms(2) by (auto intro: exI[of _ 0])
next
  case False
  define target where "target = lfp_startTime self +
      timedelta_seconds (bmi_get_current_time ext (lfp_bmi self)) +
      (case dt of None \<Rightarrow> lfp_dt self
       | Some d \<Rightarrow> if d \<noteq> total_seconds (lfp_dt self) then timedelta_seconds d else lfp_dt self)"
  have u: "update ext dt self =
      (case update_loop ext target self 0 of
         None \<Rightarrow> None
       | Some (Raise err, self, i) \<Rightarrow> Some (Raise err, self)
       | Some (Ok u, self, i) \<Rightarrow> Some (Ok (), self\<lparr>lfp_log := lfp_log self @ [(lfp_t self, i)]\<rparr>))"
    using False
    by (simp add: update_def get_current_time_initialized[OF assms(2)] target_def Let_def)
  from assms(1) u obtain y where y: "update_loop ext target self 0 = Some y"
    by (cases "update_loop ext target self 0") auto
  then obtain n where n: "y = (Ok (), (native_step ext ^^ n) self, 0 + n)"
    using update_loop_result_aux[of ext target self 0 y] assms(2) by blast
  have s': "self' = ((native_step ext ^^ n) self)
               \<lparr>lfp_log := lfp_log self @ [(lfp_t ((native_step ext ^^ n) self), n)]\<rparr>"
    using assms(1) by (simp add: u y n native_steps_fields)
  have "lfp_t self' = lfp_t self \<or>
          (\<exists>n. lfp_t self' = lfp_startTime self +
                 timedelta_seconds (bmi_get_current_time ext ((bmi_update ext ^^ n) (lfp_bmi self))))"
  proof (cases n)
    case 0
    then show ?thesis by (simp add: s')
  next
    case (Suc m)
    have "lfp_t self' = lfp_startTime self +
        timedelta_seconds (bmi_get_current_time ext ((bmi_update ext ^^ Suc m) (lfp_bmi self)))"
      unfolding s' Suc using native_steps_t[where ext = ext and n = m and self = self] by simp
    then show ?thesis by blast
  qed
  moreover have "lfp_bmi self' = (bmi_update ext ^^ n) (lfp_bmi self)"
    by (simp add: s' native_steps_fields)
  ultimately show ?thesis
    using assms(2) by (auto simp: s' native_steps_fields)
qed

lemma update_until_loop_result:
  assumes "update_until_loop ext t dt self = Some y"
  shows "lfp_initialized self \<longrightarrow>
         lfp_initialized (snd y) \<and> lfp_startTime (snd y) = lfp_startTime self \<and>
         lfp_endTime (snd y) = lfp_endTime self \<and>
         (\<exists>n. lfp_bmi (snd y) = (bmi_update ext ^^ n) (lfp_bmi self)) \<and>
         (lfp_t (snd y) = lfp_t self \<or>
          (\<exists>n. lfp_t (snd y) = lfp_startTime self +
                 timedelta_seconds (bmi_get_current_time ext ((bmi_update ext ^^ n) (lfp_bmi self))))) \<and>
         (fst y = Ok () \<longrightarrow> t \<le> lfp_t (snd y))"
  using assms
proof (rule update_until_loop.raw_induct
    [where P = "\<lambda>ext t dt self y. lfp_initialized self \<longrightarrow>
         lfp_initialized (snd y) \<and> lfp_startTime (snd y) = lfp_startTime self \<and>
         lfp_endTime (snd y) = lfp_endTime self \<and>
         (\<exists>n. lfp_bmi (snd y) = (bmi_update ext ^^ n) (lfp_bmi self)) \<and>
         (lfp_t (snd y) = lfp_t self \<or>
          (\<exists>n. lfp_t (snd y) = lfp_startTime self +
                 timedelta_seconds (bmi_get_current_time ext ((bmi_update ext ^^ n) (lfp_bmi self))))) \<and>
         (fst y = Ok () \<longrightarrow> t \<le> lfp_t (snd y))", rotated])
  fix loop :: "'a externals \<Rightarrow> int \<Rightarrow> rat option \<Rightarrow> 'a lfp \<Rightarrow> (unit outcome \<times> 'a lfp) option"
  fix ext t dt self y
  assume IH: "\<And>ext t dt self y. loop ext t dt self = Some y \<Longrightarrow>
       lfp_initialized self \<longrightarrow>
         lfp_initialized (snd y) \<and> lfp_startTime (snd y) = lfp_startTime self \<and>
         lfp_endTime (snd y) = lfp_endTime self \<and>
         (\<exists>n. lfp_bmi (snd y) = (bmi_update ext ^^ n) (lfp_bmi self)) \<and>
         (lfp_t (snd y) = lfp_t self \<or>
          (\<exists>n. lfp_t (snd y) = lfp_startTime self +
                 timedelta_seconds (bmi_get_current_time ext ((bmi_update ext ^^ n) (lfp_bmi self))))) \<and>
         (fst y = Ok () \<longrightarrow> t \<le> lfp_t (snd y))"
  assume body: "(if lfp_t self < t then
        (case update ext dt self of
           None \<Rightarrow> None
         | Some (Raise err, self) \<Rightarrow> Some (Raise err, self)
         | Some (Ok u, self) \<Rightarrow> loop ext t dt self)
      else Some (Ok (), self)) = Some y"
  show "lfp_initialized self \<longrightarrow>
         lfp_initialized (snd y) \<and> lfp_startTime (snd y) = lfp_startTime self \<and>
         lfp_endTime (snd y) = lfp_endTime self \<and>
         (\<exists>n. lfp_bmi (snd y) = (bmi_update ext ^^ n) (lfp_bmi self)) \<and>
         (lfp_t (snd y) = lfp_t self \<or>
          (\<exists>n. lfp_t (snd y) = lfp_startTime self +
                 timedelta_seconds (bmi_get_current_time ext ((bmi_update ext ^^ n) (lfp_bmi self))))) \<and>
         (fst y = Ok () \<longrightarrow> t \<le> lfp_t (snd y))"
  proof
    assume init: "lfp_initialized self"
    show "lfp_initialized (snd y) \<and> lfp_startTime (snd y) = lfp_startTime self \<and>
         lfp_endTime (snd y) = lfp_endTime self \<and>
         (\<exists>n. lfp_bmi (snd y) = (bmi_update ext ^^ n) (lfp_bmi self)) \<and>
         (lfp_t (snd y) = lfp_t self \<or>
          (\<exists>n. lfp_t (snd y) = lfp_startTime self +
                 timedelta_seconds (bmi_get_current_time ext ((bmi_update ext ^^ n) (lfp_bmi self))))) \<and>
         (fst y = Ok () \<longrightarrow> t \<le> lfp_t (snd y))"
    proof (cases "lfp_t self < t")
      case False
      with body have "y = (Ok (), self)" by simp
      with False init show ?thesis by (auto intro: exI[of _ 0])
    next
      case True
      from body True obtain r s1 where u: "update ext dt self = Some (r, s1)"
        by (cases "update ext dt self") auto
      note r1 = update_result[OF u init]
      then obtain n1 where n1: "lfp_bmi s1 = (bmi_update ext ^^ n1) (lfp_bmi self)"
        by blast
      show ?thesis
      proof (cases r)
        case (Raise err)
        with body True u have "y = (Raise err, s1)" by simp
        then show ?thesis using r1 by simp
      next
        case (Ok x)
        with body True u have "loop ext t dt s1 = Some y" by simp
        then have r2: "lfp_initialized (snd y) \<and> lfp_startTime (snd y) = lfp_startTime s1 \<and>
           lfp_endTime (snd y) = lfp_endTime s1 \<and>
           (\<exists>n. lfp_bmi (snd y) = (bmi_update ext ^^ n) (lfp_bmi s1)) \<and>
           (lfp_t (snd y) = lfp_t s1 \<or>
            (\<exists>n. lfp_t (snd y) = lfp_startTime s1 +
                 timedelta_seconds (bmi_get_current_time ext ((bmi_update ext ^^ n) (lfp_bmi s1))))) \<and>
           (fst y = Ok () \<longrightarrow> t \<le> lfp_t (snd y))"
          using IH r1 by blast
        have b: "\<exists>n. lfp_bmi (snd y) = (bmi_update ext ^^ n) (lfp_bmi self)"
          using r2 n1 by (metis funpow_add o_apply)
        have c: "lfp_t (snd y) = lfp_t self \<or>
          (\<exists>n. lfp_t (snd y) = lfp_startTime self +
                 timedelta_seconds (bmi_get_current_time ext ((bmi_update ext ^^ n) (lfp_bmi self))))"
        proof -
          from r2 consider "lfp_t (snd y) = lfp_t s1"
            | n where "lfp_t (snd y) = lfp_startTime s1 +
                 timedelta_seconds (bmi_get_current_time ext ((bmi_update ext ^^ n) (lfp_bmi s1)))"
            by blast
          then show ?thesis
          proof cases
            case 1
            then show ?thesis using r1 by auto
          next
            case 2
            have "(bmi_update ext ^^ n) (lfp_bmi s1) = (bmi_update ext ^^ (n + n1)) (lfp_bmi self)"
              by (simp add: n1 funpow_add)
            then show ?thesis using 2 r1 by auto
          qed
        qed
        show ?thesis using r1 r2 b c by simp
      qed
    qed
  qed
qed

lemma timedelta_seconds_of_int: "timedelta_seconds (of_int k) = k * 1000000"
proof -
  have "of_int k * (1000000::rat) = of_int (k * 1000000)" by simp
  then show ?thesis
    unfolding timedelta_seconds_def round_half_even_def by (simp only: floor_of_int Let_def) simp
qed

text \<open>
  Claim C9, as the code has it. \<open>update\<close> and \<open>update_until\<close> do not clip a step at
  the end time: they leave the start and end time of an initialized adapter as they
  are and set the current time to the start time plus the time the engine reports. So
  the bounds hold after a call that returns, normally or not, when they held before it
  and the time the engine reports stays between zero and the length of the run after
  every native step. A normal return of \<open>update_until\<close> has reached its target.
\<close>

theorem update_keeps_time_bounds:
  assumes "lfp_initialized self"
    and "lfp_startTime self \<le> lfp_t self" and "lfp_t self \<le> lfp_endTime self"
    and "\<forall>n. 0 \<le> timedelta_seconds (bmi_get_current_time ext ((bmi_update ext ^^ n) (lfp_bmi self))) \<and>
             lfp_startTime self +
               timedelta_seconds (bmi_get_current_time ext ((bmi_update ext ^^ n) (lfp_bmi self)))
             \<le> lfp_endTime self"
  shows "(\<forall>r self'. update ext dt self = Some (r, self') \<longrightarrow>
            lfp_startTime self' = lfp_startTime self \<and> lfp_endTime self' = lfp_endTime self \<and>
            lfp_startTime self' \<le> lfp_t self' \<and> lfp_t self' \<le> lfp_endTime self') \<and>
         (\<forall>r self'. update_until ext t dt self = Some (r, self') \<longrightarrow>
            lfp_startTime self' = lfp_startTime self \<and> lfp_endTime self' = lfp_endTime self \<and>
            lfp_startTime self' \<le> lfp_t self' \<and> lfp_t self' \<le> lfp_endTime self' \<and>
            (r = Ok () \<longrightarrow> t \<le> lfp_t self'))"
proof -
  have bounds: "lfp_startTime self \<le> x \<and> x \<le> lfp_endTime self"
    if "x = lfp_t self \<or>
        (\<exists>n. x = lfp_startTime self +
           timedelta_seconds (bmi_get_current_time ext ((bmi_update ext ^^ n) (lfp_bmi self))))"
    for x
    using that assms(2,3,4) by (elim disjE exE) (simp, metis add_increasing2 order_refl)
  have a: "lfp_startTime self' = lfp_startTime self \<and> lfp_endTime self' = lfp_endTime self \<and>
           lfp_startTime self' \<le> lfp_t self' \<and> lfp_t self' \<le> lfp_endTime self'"
    if "update ext dt self = Some (r, self')" for r self'
    using update_result[OF that assms(1)] bounds[of "lfp_t self'"] by simp
  have b: "lfp_startTime self' = lfp_startTime self \<and> lfp_endTime self' = lfp_endTime self \<and>
           lfp_startTime self' \<le> lfp_t self' \<and> lfp_t self' \<le> lfp_endTime self' \<and>
           (r = Ok () \<longrightarrow> t \<le> lfp_t self')"
    if u: "update_until ext t dt self = Some (r, self')" for r self'
  proof (cases "t < lfp_t self \<or> lfp_endTime self < t")
    case True
    with u have "self' = self" "r = Raise WrongTimeInput"
      by (simp_all add: update_until_def)
    then show ?thesis using assms(2,3) by simp
  next
    case False
    with u have "update_until_loop ext t dt self = Some (r, self')"
      by (simp add: update_until_def)
    from update_until_loop_result[OF this] assms(1) bounds[of "lfp_t self'"]
    show ?thesis by simp
  qed
  show ?thesis using a b by blast
qed

theorem update_keeps_time_bounds_witness:
  "update \<lparr>bmi_update = (\<lambda>e. min (e + 30) 100), bmi_get_start_time = (\<lambda>e. 0),
            bmi_get_current_time = (\<lambda>e. of_int e), bmi_get_end_time = (\<lambda>e. 100),
            bmi_get_time_step = (\<lambda>e. 30), strptime = (\<lambda>s. None)\<rparr>
     None
     \<lparr>lfp_bmi = (60::int), lfp_initialized = True, lfp_config = None,
      lfp_dt = 30000000, lfp_startTime = 0, lfp_endTime = 100000000,
      lfp_t = 60000000, lfp_log = []\<rparr> =
   Some (Ok (),
     \<lparr>lfp_bmi = 90, lfp_initialized = True, lfp_config = None,
      lfp_dt = 30000000, lfp_startTime = 0, lfp_endTime = 100000000,
      lfp_t = 90000000, lfp_log = [(90000000, 1)]\<rparr>) \<and>
   (0::int) \<le> 90000000 \<and> (90000000::int) \<le> 100000000"
proof -
  let ?ext = "\<lparr>bmi_update = (\<lambda>e. min (e + 30) 100), bmi_get_start_time = (\<lambda>e. 0),
            bmi_get_current_time = (\<lambda>e. of_int e), bmi_get_end_time = (\<lambda>e. 100),
            bmi_get_time_step = (\<lambda>e. 30), strptime = (\<lambda>s. None)\<rparr> :: int externals"
  let ?s = "\<lparr>lfp_bmi = (60::int), lfp_initialized = True, lfp_config = None,
      lfp_dt = 30000000, lfp_startTime = 0, lfp_endTime = 100000000,
      lfp_t = 60000000, lfp_log = []\<rparr>"
  let ?s' = "\<lparr>lfp_bmi = (90::int), lfp_initialized = True, lfp_config = None,
      lfp_dt = 30000000, lfp_startTime = 0, lfp_endTime = 100000000,
      lfp_t = 90000000, lfp_log = [(90000000, 1)]\<rparr>"
  have rng: "0 \<le> ((\<lambda>e::int. min (e + 30) 100) ^^ n) 60 \<and>
             ((\<lambda>e::int. min (e + 30) 100) ^^ n) 60 \<le> 100" for n
    by (induction n) auto
  have h1: "lfp_initialized ?s" and h2: "lfp_startTime ?s \<le> lfp_t ?s"
    and h3: "lfp_t ?s \<le> lfp_endTime ?s"
    by simp_all
  have h4: "\<forall>n. 0 \<le> timedelta_seconds (bmi_get_current_time ?ext ((bmi_update ?ext ^^ n) (lfp_bmi ?s))) \<and>
             lfp_startTime ?s +
               timedelta_seconds (bmi_get_current_time ?ext ((bmi_update ?ext ^^ n) (lfp_bmi ?s)))
             \<le> lfp_endTime ?s"
    using rng by (simp add: timedelta_seconds_of_int)
  have r: "update ?ext None ?s = Some (Ok (), ?s')"
    by (simp add: update_def get_current_time_def timedelta_seconds_def round_half_even_def
        update_loop.simps Let_def)
  have "lfp_startTime ?s' \<le> lfp_t ?s' \<and> lfp_t ?s' \<le> lfp_endTime ?s'"
    using update_keeps_time_bounds[OF h1 h2 h3 h4, of None] r by blast
  then show ?thesis using r by simp
qed

text \<open>
  The claim as the specification words it has the bounds after every call of
  \<open>update\<close>. An engine that advances by 30 seconds whatever its end time, on a run
  of 100 seconds that has reached 90: the bounds hold, the target of \<open>update\<close> is
  120 seconds, and the call returns with the current time at 120 seconds, beyond the
  end time.
\<close>

theorem update_past_end_time_counterexample:
  "update \<lparr>bmi_update = (\<lambda>e. e + 30), bmi_get_start_time = (\<lambda>e. 0),
            bmi_get_current_time = (\<lambda>e. of_int e), bmi_get_end_time = (\<lambda>e. 100),
            bmi_get_time_step = (\<lambda>e. 30), strptime = (\<lambda>s. None)\<rparr>
     None
     \<lparr>lfp_bmi = (90::int), lfp_initialized = True, lfp_config = None,
      lfp_dt = 30000000, lfp_startTime = 0, lfp_endTime = 100000000,
      lfp_t = 90000000, lfp_log = []\<rparr> =
   Some (Ok (),
     \<lparr>lfp_bmi = 120, lfp_initialized = True, lfp_config = None,
      lfp_dt = 30000000, lfp_startTime = 0, lfp_endTime = 100000000,
      lfp_t = 120000000, lfp_log = [(120000000, 1)]\<rparr>) \<and>
   (0::int) \<le> 90000000 \<and> (90000000::int) \<le> 100000000 \<and>
   \<not> (120000000::int) \<le> 100000000"
  by (simp add: update_def get_current_time_def timedelta_seconds_def round_half_even_def
      update_loop.simps Let_def)


subsection \<open>Setting the end time\<close>

lemma div_mod_split:
  fixes d b c :: int
  assumes "0 < b" "0 \<le> c"
  shows "d mod (b * c) div b + d div (b * c) * c = d div b"
proof -
  have "d mod (b * c) = b * (d div b mod c) + d mod b"
    using assms by (simp add: zmod_zmult2_eq)
  then have "d mod (b * c) div b = d div b mod c"
    using assms by simp
  moreover have "d div (b * c) = d div b div c"
    using assms by (simp add: zdiv_zmult2_eq)
  ultimately show ?thesis by simp
qed

lemma timedelta_whole_seconds: "td_seconds d + td_days d * 86400 = d div 1000000"
  using div_mod_split[of 1000000 86400 d] by (simp add: td_seconds_def td_days_def)

lemma digit_not_newline: "d < 10 \<Longrightarrow> digit_char d \<noteq> CHR 0x0A"
proof -
  assume "d < 10"
  then have "digit_char d \<in> set ''0123456789''"
    unfolding digit_char_def by (intro nth_mem) simp
  then show ?thesis by auto
qed

lemma digits_no_newline: "CHR 0x0A \<notin> set acc \<Longrightarrow> CHR 0x0A \<notin> set (digits n acc)"
proof (induction n acc rule: digits.induct)
  case (1 n acc)
  show ?case
  proof (cases "n < 10")
    case True
    then show ?thesis
      using "1.prems" digit_not_newline[of n] by (subst digits.simps) auto
  next
    case False
    have "CHR 0x0A \<notin> set (digit_char (n mod 10) # acc)"
      using "1.prems" digit_not_newline[of "n mod 10"] by auto
    then have "CHR 0x0A \<notin> set (digits (n div 10) (digit_char (n mod 10) # acc))"
      using "1.IH"[OF False] by simp
    then show ?thesis
      using False by (subst digits.simps) simp
  qed
qed

lemma decimal_no_newline: "CHR 0x0A \<notin> set (decimal n)"
  by (simp add: decimal_def digits_no_newline)

lemma replace_absent: "a \<notin> set s \<Longrightarrow> replace a b s = s"
  by (induction s) (auto simp: replace_def)

lemma sim_time_key:
  "attribute_key ''sim_time'' = ''general:sim_time''"
  "split_on (CHR '':'') ''general:sim_time'' = [''general'', ''sim_time'']"
  "attribute_key ''refdate'' = ''general:refdate''"
  by (simp_all add: attribute_key_def)

lemma map_entry_member:
  "map_of xs k = Some v \<Longrightarrow> map_of (AList.map_entry k f xs) k = Some (f v)"
  by (induction xs) auto

lemma configset_sim_time:
  "\<exists>cfg' items. configset cfg ''general:sim_time'' v = Ok cfg' \<and>
     cfg_defaults cfg' = cfg_defaults cfg \<and>
     map_of (cfg_sections cfg') ''general'' = Some items \<and>
     map_of items ''sim_time'' = Some (Some v)"
proof (cases "''general'' \<in> fst ` set (cfg_sections cfg)")
  case True
  then obtain items where items: "map_of (cfg_sections cfg) ''general'' = Some items"
    by (metis domD dom_map_of_conv_image_fst)
  show ?thesis
    using True map_entry_member[OF items, of "AList.update ''sim_time'' (Some v)"]
    by (simp add: configset_def sim_time_key update_conv')
next
  case False
  then have "map_of (cfg_sections cfg) ''general'' = None"
    by (simp add: map_of_eq_None_iff)
  then show ?thesis
    using False by (simp add: configset_def sim_time_key map_add_def)
qed

lemma written_line:
  assumes "map_of (cfg_sections cfg) s = Some items" and "map_of items k = Some (Some v)"
    and "CHR 0x0A \<notin> set v"
  shows "\<exists>pre post. write_config cfg = pre @ k @ '' '' @ v @ [CHR 0x0A] @ post"
proof -
  obtain a b where ab: "cfg_sections cfg = a @ (s, items) # b"
    using map_of_SomeD[OF assms(1)] by (meson split_list)
  obtain c d where cd: "items = c @ (k, Some v) # d"
    using map_of_SomeD[OF assms(2)] by (meson split_list)
  have "write_section s items =
          concat (map (\<lambda>(key, val). key @ ('' '' @ replace (CHR 0x0A) [CHR 0x0A, CHR 0x09]
             (str_value val)) @ [CHR 0x0A]) c) @
          (k @ '' '' @ v @ [CHR 0x0A]) @
          (concat (map (\<lambda>(key, val). key @ ('' '' @ replace (CHR 0x0A) [CHR 0x0A, CHR 0x09]
             (str_value val)) @ [CHR 0x0A]) d) @ [CHR 0x0A])"
    by (simp add: write_section_def cd str_value_def replace_absent[OF assms(3)])
  then obtain p1 q1 where w: "write_section s items = p1 @ (k @ '' '' @ v @ [CHR 0x0A]) @ q1"
    by blast
  have "write_config cfg =
          ((if cfg_defaults cfg \<noteq> [] then write_section default_section (cfg_defaults cfg) else []) @
           concat (map (\<lambda>(section, items). write_section section items) a) @ p1) @
          (k @ '' '' @ v @ [CHR 0x0A]) @
          (q1 @ concat (map (\<lambda>(section, items). write_section section items) b))"
    by (simp add: write_config_def ab w)
  then show ?thesis by (metis append.assoc)
qed

lemma get_start_time_ok:
  assumes "get_start_time ext self = (Ok d, self1)"
  shows "self1 = self\<lparr>lfp_startTime := d\<rparr>"
  using assms
  by (auto simp: get_start_time_def Let_def split: outcome.splits option.splits)

lemma digit_value_char: "d < 10 \<Longrightarrow> digit_value (digit_char d) = d"
proof -
  assume "d < 10"
  then have "d = 0 \<or> d = 1 \<or> d = 2 \<or> d = 3 \<or> d = 4 \<or> d = 5 \<or> d = 6 \<or> d = 7 \<or> d = 8 \<or> d = 9"
    by arith
  then show ?thesis
    by (elim disjE) (simp_all add: digit_char_def digit_value_def)
qed

lemma digit_char_digit: "d < 10 \<Longrightarrow> digit_char d \<in> set ''0123456789''"
  unfolding digit_char_def by (intro nth_mem) simp

lemma le_value_append: "le_value (xs @ ys) = le_value xs + 10 ^ length xs * le_value ys"
  by (induction xs) (simp_all add: algebra_simps)

lemma digits_value:
  "le_value (rev (digits n acc)) = le_value (rev acc) + 10 ^ length acc * n"
proof (induction n acc rule: digits.induct)
  case (1 n acc)
  show ?case
  proof (cases "n < 10")
    case True
    then show ?thesis
      by (subst digits.simps) (simp add: le_value_append digit_value_char)
  next
    case False
    have m: "n mod 10 < 10" by simp
    have "le_value (rev (digits n acc)) =
            le_value (rev (digit_char (n mod 10) # acc)) +
            10 ^ length (digit_char (n mod 10) # acc) * (n div 10)"
      using False "1.IH"[OF False] by (subst digits.simps) simp
    also have "\<dots> = le_value (rev acc) + 10 ^ length acc * (n mod 10) +
                     10 ^ length acc * (10 * (n div 10))"
      by (simp add: le_value_append digit_value_char[OF m])
    also have "\<dots> = le_value (rev acc) + 10 ^ length acc * (n mod 10 + 10 * (n div 10))"
      by (simp only: distrib_left add.assoc)
    also have "\<dots> = le_value (rev acc) + 10 ^ length acc * n"
      by simp
    finally show ?thesis .
  qed
qed

lemma digits_are_digits:
  "set acc \<subseteq> set ''0123456789'' \<Longrightarrow> set (digits n acc) \<subseteq> set ''0123456789''"
proof (induction n acc rule: digits.induct)
  case (1 n acc)
  show ?case
  proof (cases "n < 10")
    case True
    then show ?thesis
      using "1.prems" digit_char_digit[of n] by (subst digits.simps) simp
  next
    case False
    have "set (digit_char (n mod 10) # acc) \<subseteq> set ''0123456789''"
      using "1.prems" digit_char_digit[of "n mod 10"] by simp
    then show ?thesis
      using False "1.IH"[OF False] by (subst digits.simps) simp
  qed
qed

lemma digits_leading: "0 < n \<Longrightarrow> hd (digits n acc) \<noteq> CHR ''0''"
proof (induction n acc rule: digits.induct)
  case (1 n acc)
  show ?case
  proof (cases "n < 10")
    case True
    have "digit_value (digit_char n) \<noteq> digit_value (CHR ''0'')"
      using True "1.prems" by (simp add: digit_value_char) (simp add: digit_value_def)
    then have "digit_char n \<noteq> CHR ''0''" by auto
    then show ?thesis
      using True by (subst digits.simps) simp
  next
    case False
    then have "0 < n div 10" by simp
    then show ?thesis
      using False "1.IH"[OF False] by (subst digits.simps) simp
  qed
qed

text \<open>
  What \<open>decimal\<close> writes for a number that is not negative: decimal digits only, which
  read back as the number, with no leading zero but for the number zero.
\<close>

lemma decimal_digits:
  assumes "0 \<le> n"
  shows "set (decimal n) \<subseteq> set ''0123456789''"
    and "int (int_of_digits (decimal n)) = n"
    and "hd (decimal n) = CHR ''0'' \<longrightarrow> decimal n = ''0''"
proof -
  have d: "decimal n = digits (nat n) []"
    using assms by (simp add: decimal_def)
  show "set (decimal n) \<subseteq> set ''0123456789''"
    unfolding d by (rule digits_are_digits) simp
  show "int (int_of_digits (decimal n)) = n"
    unfolding d int_of_digits_def using assms digits_value[of "nat n" "[]"] by simp
  show "hd (decimal n) = CHR ''0'' \<longrightarrow> decimal n = ''0''"
  proof (cases "n = 0")
    case True
    then show ?thesis
      unfolding d by (subst (2) digits.simps) (simp add: digit_char_def)
  next
    case False
    then have "0 < nat n" using assms by simp
    then show ?thesis unfolding d using digits_leading by blast
  qed
qed

text \<open>
  Claim C8. With a configuration loaded and a start time that \<open>get_start_time\<close> can
  compute, for an end time given as a \<open>datetime\<close> or as a string that
  \<open>strptime\<close> accepts: if the end time is not after the start time, the assertion of
  line 255 fails and neither the configuration nor \<open>_endTime\<close> changes; otherwise
  \<open>set_end_time\<close> returns normally, \<open>_endTime\<close> is the new end time, and the
  attribute \<open>sim_time\<close> reads as a string of decimal digits, without leading zero,
  whose number is the whole number of seconds from the start time to the end time
  (the difference in microseconds divided by a million, rounded down); the
  configuration as written to the file has the line \<open>sim_time\<close>, a space and that
  string.
\<close>

theorem set_end_time_sim_time:
  assumes "lfp_config self = Some cfg"
    and "get_start_time ext self = (Ok refdate, self1)"
    and "end_arg = TimeDatetime e \<or> (end_arg = TimeStr str \<and> strptime ext str = Some e)"
  shows "(\<not> refdate < e \<longrightarrow>
            set_end_time ext end_arg self = (Raise AssertionError, self1) \<and>
            lfp_config self1 = Some cfg \<and> lfp_endTime self1 = lfp_endTime self) \<and>
         (refdate < e \<longrightarrow>
            (\<exists>cfg' v. set_end_time ext end_arg self =
                      (Ok (), self1\<lparr>lfp_config := Some cfg', lfp_endTime := e\<rparr>) \<and>
                    get_attribute_value (self1\<lparr>lfp_config := Some cfg', lfp_endTime := e\<rparr>)
                      ''sim_time'' = Ok (Some v) \<and>
                    set v \<subseteq> set ''0123456789'' \<and>
                    int (int_of_digits v) = (e - refdate) div 1000000 \<and>
                    (hd v = CHR ''0'' \<longrightarrow> v = ''0'') \<and>
                    (\<exists>pre post. write_config cfg' =
                       pre @ ''sim_time'' @ '' '' @ v @ [CHR 0x0A] @ post)))"
proof -
  let ?v = "decimal ((e - refdate) div 1000000)"
  have s1: "self1 = self\<lparr>lfp_startTime := refdate\<rparr>"
    using assms(2) by (rule get_start_time_ok)
  have arg: "(case end_arg of
                TimeStr s \<Rightarrow> (case strptime ext s of None \<Rightarrow> Raise ValueError | Some d \<Rightarrow> Ok d)
              | TimeDatetime d \<Rightarrow> Ok d
              | TimeOther \<Rightarrow> Raise ValueError) = Ok e"
    using assms(3) by auto
  have early: "set_end_time ext end_arg self = (Raise AssertionError, self1)" if "\<not> refdate < e"
    using that unfolding set_end_time_def arg by (simp add: assms(2))
  obtain cfg' items where c: "configset cfg ''general:sim_time'' ?v = Ok cfg'"
    "map_of (cfg_sections cfg') ''general'' = Some items"
    "map_of items ''sim_time'' = Some (Some ?v)"
    using configset_sim_time[of cfg ?v] by blast
  have late: "set_end_time ext end_arg self =
                (Ok (), self1\<lparr>lfp_config := Some cfg', lfp_endTime := e\<rparr>)" if "refdate < e"
    using that unfolding set_end_time_def arg
    by (simp add: assms(2) timedelta_whole_seconds set_attribute_value_def s1 assms(1)
        sim_time_key c(1) Let_def)
  have get: "get_attribute_value (self1\<lparr>lfp_config := Some cfg', lfp_endTime := e\<rparr>) ''sim_time''
               = Ok (Some ?v)"
    by (simp add: get_attribute_value_def configget_def sim_time_key c(2,3))
  have wr: "\<exists>pre post. write_config cfg' = pre @ ''sim_time'' @ '' '' @ ?v @ [CHR 0x0A] @ post"
    using c(2,3) decimal_no_newline by (rule written_line)
  have dg: "set ?v \<subseteq> set ''0123456789'' \<and> int (int_of_digits ?v) = (e - refdate) div 1000000 \<and>
            (hd ?v = CHR ''0'' \<longrightarrow> ?v = ''0'')" if "refdate < e"
  proof -
    have "0 \<le> (e - refdate) div 1000000" using that by simp
    then show ?thesis using decimal_digits[of "(e - refdate) div 1000000"] by blast
  qed
  have second: "\<exists>cfg' v. set_end_time ext end_arg self =
                      (Ok (), self1\<lparr>lfp_config := Some cfg', lfp_endTime := e\<rparr>) \<and>
                    get_attribute_value (self1\<lparr>lfp_config := Some cfg', lfp_endTime := e\<rparr>)
                      ''sim_time'' = Ok (Some v) \<and>
                    set v \<subseteq> set ''0123456789'' \<and>
                    int (int_of_digits v) = (e - refdate) div 1000000 \<and>
                    (hd v = CHR ''0'' \<longrightarrow> v = ''0'') \<and>
                    (\<exists>pre post. write_config cfg' =
                       pre @ ''sim_time'' @ '' '' @ v @ [CHR 0x0A] @ post)" if "refdate < e"
    using late[OF that] get wr dg[OF that]
    by (intro exI[of _ cfg'] exI[of _ ?v]) blast
  show ?thesis
    using early second s1 assms(1) by auto
qed

theorem set_end_time_sim_time_witness:
  "set_end_time
     \<lparr>bmi_update = (\<lambda>e. e), bmi_get_start_time = (\<lambda>e. 0), bmi_get_current_time = (\<lambda>e. 0),
      bmi_get_end_time = (\<lambda>e. 0), bmi_get_time_step = (\<lambda>e. 0),
      strptime = (\<lambda>s. if s = ''2000-01-01'' then Some 0
                        else if s = ''2000-01-02'' then Some 86400000000 else None)\<rparr>
     (TimeStr ''2000-01-02'')
     \<lparr>lfp_bmi = (0::int), lfp_initialized = False,
      lfp_config = Some \<lparr>cfg_defaults = [(''refdate'', Some ''2000-01-01'')],
                         cfg_sections = [(''general'', [(''sim_time'', Some ''100.0'')])]\<rparr>,
      lfp_dt = 0, lfp_startTime = 0, lfp_endTime = 100000000, lfp_t = 0, lfp_log = []\<rparr> =
   (Ok (),
     \<lparr>lfp_bmi = 0, lfp_initialized = False,
      lfp_config = Some \<lparr>cfg_defaults = [(''refdate'', Some ''2000-01-01'')],
                         cfg_sections = [(''general'', [(''sim_time'', Some ''86400'')])]\<rparr>,
      lfp_dt = 0, lfp_startTime = 0, lfp_endTime = 86400000000, lfp_t = 0, lfp_log = []\<rparr>) \<and>
   int (int_of_digits ''86400'') = (86400000000 - 0) div 1000000 \<and>
   fst (set_end_time
     \<lparr>bmi_update = (\<lambda>e. e), bmi_get_start_time = (\<lambda>e. 0), bmi_get_current_time = (\<lambda>e. 0),
      bmi_get_end_time = (\<lambda>e. 0), bmi_get_time_step = (\<lambda>e. 0),
      strptime = (\<lambda>s. if s = ''2000-01-01'' then Some 0
                        else if s = ''2000-01-02'' then Some 86400000000 else None)\<rparr>
     (TimeDatetime 0)
     \<lparr>lfp_bmi = (0::int), lfp_initialized = False,
      lfp_config = Some \<lparr>cfg_defaults = [(''refdate'', Some ''2000-01-01'')],
                         cfg_sections = [(''general'', [(''sim_time'', Some ''100.0'')])]\<rparr>,
      lfp_dt = 0, lfp_startTime = 0, lfp_endTime = 100000000, lfp_t = 0, lfp_log = []\<rparr>) =
   Raise AssertionError"
proof -
  let ?ext = "\<lparr>bmi_update = (\<lambda>e. e), bmi_get_start_time = (\<lambda>e. 0), bmi_get_current_time = (\<lambda>e. 0),
      bmi_get_end_time = (\<lambda>e. 0), bmi_get_time_step = (\<lambda>e. 0),
      strptime = (\<lambda>s. if s = ''2000-01-01'' then Some 0
                        else if s = ''2000-01-02'' then Some 86400000000 else None)\<rparr>
      :: int externals"
  let ?cfg = "\<lparr>cfg_defaults = [(''refdate'', Some ''2000-01-01'')],
               cfg_sections = [(''general'', [(''sim_time'', Some ''100.0'')])]\<rparr>"
  let ?cfg2 = "\<lparr>cfg_defaults = [(''refdate'', Some ''2000-01-01'')],
               cfg_sections = [(''general'', [(''sim_time'', Some ''86400'')])]\<rparr>"
  let ?s = "\<lparr>lfp_bmi = (0::int), lfp_initialized = False, lfp_config = Some ?cfg,
      lfp_dt = 0, lfp_startTime = 0, lfp_endTime = 100000000, lfp_t = 0, lfp_log = []\<rparr>"
  have td: "timedelta_seconds 0 = 0"
    by (simp add: timedelta_seconds_def round_half_even_def)
  have h1: "lfp_config ?s = Some ?cfg" by simp
  have h2: "get_start_time ?ext ?s = (Ok 0, ?s)"
    by (simp add: get_start_time_def get_attribute_value_def configget_def sim_time_key td)
  have h3: "TimeStr ''2000-01-02'' = TimeDatetime 86400000000 \<or>
            (TimeStr ''2000-01-02'' = TimeStr ''2000-01-02'' \<and>
             strptime ?ext ''2000-01-02'' = Some 86400000000)"
    by simp
  have h3': "TimeDatetime 0 = TimeDatetime 0 \<or>
            (TimeDatetime 0 = TimeStr [] \<and> strptime ?ext [] = Some 0)"
    by simp
  have d: "decimal 86400 = ''86400''"
    by (simp add: decimal_def digits.simps digit_char_def)
  obtain cfg' v where c:
    "set_end_time ?ext (TimeStr ''2000-01-02'') ?s =
       (Ok (), ?s\<lparr>lfp_config := Some cfg', lfp_endTime := 86400000000\<rparr>)"
    "get_attribute_value (?s\<lparr>lfp_config := Some cfg', lfp_endTime := 86400000000\<rparr>)
       ''sim_time'' = Ok (Some v)"
    "int (int_of_digits v) = (86400000000 - 0) div 1000000"
    using set_end_time_sim_time[OF h1 h2 h3] by auto
  have ev: "set_end_time ?ext (TimeStr ''2000-01-02'') ?s =
       (Ok (), ?s\<lparr>lfp_config := Some ?cfg2, lfp_endTime := 86400000000\<rparr>)"
    unfolding set_end_time_def h2
    by (simp add: timedelta_whole_seconds d set_attribute_value_def sim_time_key configset_def)
  have cfg': "cfg' = ?cfg2"
    using c(1) unfolding ev by simp
  have "v = ''86400''"
    using c(2) unfolding cfg'
    by (simp add: get_attribute_value_def configget_def sim_time_key)
  then have "int (int_of_digits ''86400'') = (86400000000 - 0) div 1000000"
    using c(3) by simp
  moreover have "fst (set_end_time ?ext (TimeDatetime 0) ?s) = Raise AssertionError"
    using set_end_time_sim_time[OF h1 h2 h3'] by simp
  ultimately show ?thesis using c(1) cfg' by simp
qed


end
